theory Spec2Isabelle
  imports Complex_Main
begin

section \<open>Tensors\<close>

text \<open>
  A tensor is its shape and its elements in row-major order, as a contiguous
  \<^verbatim>\<open>torch.Tensor\<close> stores them. Floating-point numbers are idealised as reals;
  the one place where the program can leave the finite numbers, the division by
  \<^verbatim>\<open>mask.sum()\<close>, is modelled by the type \<open>scalar\<close> below.
\<close>

datatype 'a tensor = Tensor (shape: "nat list") (data: "'a list")

datatype error =
  AssertionError | IndexError | KeyError | RuntimeError | ValueError | ZeroDivisionError

definition bindE :: "error + 'a \<Rightarrow> ('a \<Rightarrow> error + 'b) \<Rightarrow> error + 'b" where
  "bindE m f = (case m of Inl e \<Rightarrow> Inl e | Inr v \<Rightarrow> f v)"

fun mapE :: "('a \<Rightarrow> error + 'b) \<Rightarrow> 'a list \<Rightarrow> error + 'b list" where
  "mapE f [] = Inr []"
| "mapE f (x # xs) = bindE (f x) (\<lambda>y. bindE (mapE f xs) (\<lambda>ys. Inr (y # ys)))"

fun foldE :: "('a \<Rightarrow> 's \<Rightarrow> error + 's) \<Rightarrow> 'a list \<Rightarrow> 's \<Rightarrow> error + 's" where
  "foldE f [] s = Inr s"
| "foldE f (x # xs) s = bindE (f x s) (foldE f xs)"

text \<open>Row-major offsets: \<open>ravel s idx\<close> is the position of the element at index
  \<open>idx\<close> in a tensor of shape \<open>s\<close>, \<open>unravel\<close> its inverse.\<close>

fun ravel :: "nat list \<Rightarrow> nat list \<Rightarrow> nat" where
  "ravel (d # ds) (i # js) = i * prod_list ds + ravel ds js"
| "ravel _ _ = 0"

fun unravel :: "nat list \<Rightarrow> nat \<Rightarrow> nat list" where
  "unravel [] k = []"
| "unravel (d # ds) k = (k div prod_list ds) # unravel ds (k mod prod_list ds)"

definition tget :: "'a tensor \<Rightarrow> nat list \<Rightarrow> 'a" where
  "tget t idx = data t ! ravel (shape t) idx"

definition tabulate :: "nat list \<Rightarrow> (nat list \<Rightarrow> 'a) \<Rightarrow> 'a tensor" where
  "tabulate s f = Tensor s (map (\<lambda>k. f (unravel s k)) [0..<prod_list s])"

definition wft :: "'a tensor \<Rightarrow> bool" where
  "wft t = (length (data t) = prod_list (shape t))"

definition tmap :: "('a \<Rightarrow> 'b) \<Rightarrow> 'a tensor \<Rightarrow> 'b tensor" where
  "tmap f t = Tensor (shape t) (map f (data t))"

definition tsum :: "real tensor \<Rightarrow> real" where
  "tsum t = sum_list (data t)"

definition ones :: "nat list \<Rightarrow> real tensor" where
  "ones s = tabulate s (\<lambda>idx. 1)"

text \<open>\<^verbatim>\<open>int(r)\<close> of Python truncates towards zero.\<close>

definition py_int :: "real \<Rightarrow> int" where
  "py_int r = (if 0 \<le> r then \<lfloor>r\<rfloor> else \<lceil>r\<rceil>)"

subsection \<open>Indexing and slicing\<close>

text \<open>A bound \<open>i\<close> of a Python slice on a dimension of size \<open>n\<close>: negative bounds
  count from the end, and every bound is clamped into \<open>[0, n]\<close>.\<close>

definition slice_bound :: "nat \<Rightarrow> int \<Rightarrow> nat" where
  "slice_bound n i = (if i < 0 then nat (int n + i) else min n (nat i))"

text \<open>\<open>slice k ax start stop t\<close> is \<^verbatim>\<open>t[:, ..., start:stop, ..., :]\<close> with \<open>k\<close>
  subscripts, the slice in position \<open>ax\<close>; \<open>stop = None\<close> is an open end. More
  subscripts than dimensions raise IndexError.\<close>

definition slice :: "nat \<Rightarrow> nat \<Rightarrow> int \<Rightarrow> int option \<Rightarrow> 'a tensor \<Rightarrow> error + 'a tensor" where
  "slice k ax start stop t =
    (if length (shape t) < k \<or> length (shape t) \<le> ax then Inl IndexError
     else let n = shape t ! ax;
              a = slice_bound n start;
              b = (case stop of None \<Rightarrow> n | Some e \<Rightarrow> slice_bound n e)
          in Inr (tabulate ((shape t)[ax := b - a]) (\<lambda>idx. tget t (idx[ax := idx ! ax + a]))))"

text \<open>\<^verbatim>\<open>t[:, ..., start:stop, ..., :] = v\<close>, in place in the source, here returning the
  updated tensor.\<close>

definition slice_assign ::
  "nat \<Rightarrow> nat \<Rightarrow> int \<Rightarrow> int option \<Rightarrow> 'a \<Rightarrow> 'a tensor \<Rightarrow> error + 'a tensor" where
  "slice_assign k ax start stop v t =
    (if length (shape t) < k \<or> length (shape t) \<le> ax then Inl IndexError
     else let n = shape t ! ax;
              a = slice_bound n start;
              b = (case stop of None \<Rightarrow> n | Some e \<Rightarrow> slice_bound n e)
          in Inr (tabulate (shape t)
                    (\<lambda>idx. if a \<le> idx ! ax \<and> idx ! ax < b then v else tget t idx)))"

text \<open>\<^verbatim>\<open>t[i]\<close>: the \<open>i\<close>-th entry along the first dimension.\<close>

definition select0 :: "'a tensor \<Rightarrow> nat \<Rightarrow> error + 'a tensor" where
  "select0 t i =
    (case shape t of
       [] \<Rightarrow> Inl IndexError
     | d # ds \<Rightarrow> if d \<le> i then Inl IndexError else Inr (tabulate ds (\<lambda>idx. tget t (i # idx))))"

subsection \<open>Joining, gathering, repeating\<close>

fun cat_get :: "nat \<Rightarrow> 'a tensor list \<Rightarrow> nat list \<Rightarrow> 'a" where
  "cat_get ax [] idx = undefined"
| "cat_get ax (t # ts) idx =
     (if idx ! ax < shape t ! ax then tget t idx
      else cat_get ax ts (idx[ax := idx ! ax - shape t ! ax]))"

text \<open>\<^verbatim>\<open>torch.cat(ts, dim)\<close>: the tensors agree in every dimension but \<open>ax\<close>.\<close>

definition cat :: "'a tensor list \<Rightarrow> nat \<Rightarrow> error + 'a tensor" where
  "cat ts ax =
    (case ts of
       [] \<Rightarrow> Inl RuntimeError
     | t # _ \<Rightarrow>
         if length (shape t) \<le> ax \<or> (\<exists>u \<in> set ts. (shape u)[ax := 0] \<noteq> (shape t)[ax := 0])
         then Inl RuntimeError
         else Inr (tabulate ((shape t)[ax := sum_list (map (\<lambda>u. shape u ! ax) ts)])
                     (cat_get ax ts)))"

text \<open>\<^verbatim>\<open>torch.stack(ts)\<close>: a new first dimension over tensors of one shape.\<close>

definition stack :: "'a tensor list \<Rightarrow> error + 'a tensor" where
  "stack ts =
    (case ts of
       [] \<Rightarrow> Inl RuntimeError
     | t # _ \<Rightarrow>
         if \<exists>u \<in> set ts. shape u \<noteq> shape t then Inl RuntimeError
         else Inr (Tensor (length ts # shape t) (concat (map data ts))))"

text \<open>\<^verbatim>\<open>torch.gather(x, dim, index)\<close>: \<open>out[idx] = x[idx with idx[ax] := index[idx]]\<close>.
  The index has the rank of \<open>x\<close>, is no larger than \<open>x\<close> outside \<open>ax\<close>, and every
  entry is a position of dimension \<open>ax\<close>.\<close>

definition gather :: "'a tensor \<Rightarrow> nat \<Rightarrow> nat tensor \<Rightarrow> error + 'a tensor" where
  "gather x ax index =
    (if length (shape x) \<le> ax \<or> length (shape index) \<noteq> length (shape x)
        \<or> \<not> list_all2 (\<le>) ((shape index)[ax := 0]) ((shape x)[ax := 0])
        \<or> (\<exists>k \<in> set (data index). shape x ! ax \<le> k)
     then Inl RuntimeError
     else Inr (tabulate (shape index) (\<lambda>idx. tget x (idx[ax := tget index idx]))))"

text \<open>\<^verbatim>\<open>t.unsqueeze(-1)\<close>.\<close>

definition unsqueeze_last :: "'a tensor \<Rightarrow> 'a tensor" where
  "unsqueeze_last t = Tensor (shape t @ [1]) (data t)"

text \<open>\<^verbatim>\<open>t.repeat(*reps)\<close>: the tensor tiled \<open>reps\<close> times along each dimension;
  a negative count is an error.\<close>

definition repeat :: "'a tensor \<Rightarrow> int list \<Rightarrow> error + 'a tensor" where
  "repeat t reps =
    (if length reps < length (shape t) \<or> (\<exists>r \<in> set reps. r < 0) then Inl RuntimeError
     else let k = length reps - length (shape t);
              s = replicate k 1 @ shape t
          in Inr (tabulate (map2 (\<lambda>r d. nat r * d) reps s)
                    (\<lambda>idx. tget t (drop k (map2 (\<lambda>i d. i mod d) idx s)))))"

subsection \<open>Broadcasting\<close>

text \<open>Shapes are aligned at the right; two sizes are compatible when they are equal
  or one of them is 1.\<close>

definition broadcast_shapes :: "nat list \<Rightarrow> nat list \<Rightarrow> nat list option" where
  "broadcast_shapes a b =
    (let n = max (length a) (length b);
         a' = replicate (n - length a) 1 @ a;
         b' = replicate (n - length b) 1 @ b
     in if list_all2 (\<lambda>x y. x = y \<or> x = 1 \<or> y = 1) a' b'
        then Some (map2 (\<lambda>x y. if x = 1 then y else x) a' b') else None)"

text \<open>The index into an operand of shape \<open>s\<close> for the index \<open>idx\<close> of the result.\<close>

definition bidx :: "nat list \<Rightarrow> nat list \<Rightarrow> nat list" where
  "bidx s idx = map2 (\<lambda>i d. if d = 1 then 0 else i) (drop (length idx - length s) idx) s"

definition binop :: "('a \<Rightarrow> 'b \<Rightarrow> 'c) \<Rightarrow> 'a tensor \<Rightarrow> 'b tensor \<Rightarrow> error + 'c tensor" where
  "binop f a b =
    (case broadcast_shapes (shape a) (shape b) of
       None \<Rightarrow> Inl RuntimeError
     | Some s \<Rightarrow>
         Inr (tabulate s (\<lambda>idx. f (tget a (bidx (shape a) idx)) (tget b (bidx (shape b) idx)))))"

text \<open>\<^verbatim>\<open>t.expand(*sizes)\<close>: \<open>-1\<close> keeps a size; only dimensions of size 1 grow.\<close>

definition expand :: "'a tensor \<Rightarrow> int list \<Rightarrow> error + 'a tensor" where
  "expand t sizes =
    (let k = length sizes - length (shape t);
         s = replicate k 1 @ shape t
     in if length sizes < length (shape t)
           \<or> \<not> list_all2 (\<lambda>z d. z = - 1 \<or> (0 \<le> z \<and> (d = 1 \<or> int d = z))) sizes s
           \<or> (\<exists>z \<in> set (take k sizes). z = - 1)
        then Inl RuntimeError
        else Inr (tabulate (map2 (\<lambda>z d. if z = - 1 then d else nat z) sizes s)
                    (\<lambda>idx. tget t (bidx (shape t) idx))))"

subsection \<open>Reductions\<close>

text \<open>A reduction \<open>f\<close> along dimension \<open>ax\<close>, with or without \<^verbatim>\<open>keepdim\<close>.\<close>

definition reduce_dim ::
  "('a list \<Rightarrow> 'b) \<Rightarrow> nat \<Rightarrow> bool \<Rightarrow> 'a tensor \<Rightarrow> error + 'b tensor" where
  "reduce_dim f ax keepdim t =
    (if length (shape t) \<le> ax then Inl IndexError
     else Inr (tabulate
                 (take ax (shape t) @ (if keepdim then [1] else []) @ drop (Suc ax) (shape t))
                 (\<lambda>idx. f (map (\<lambda>j. tget t (take ax idx @ [j]
                                   @ drop (if keepdim then Suc ax else ax) idx))
                             [0..<shape t ! ax]))))"

definition mean_list :: "real list \<Rightarrow> real" where
  "mean_list xs = sum_list xs / real (length xs)"

text \<open>\<^verbatim>\<open>Tensor.var\<close> is the unbiased estimator (Bessel's correction).\<close>

definition var_list :: "real list \<Rightarrow> real" where
  "var_list xs = sum_list (map (\<lambda>x. (x - mean_list xs)\<^sup>2) xs) / (real (length xs) - 1)"

text \<open>\<^verbatim>\<open>dim=-1\<close>: the last dimension.\<close>

definition last_dim :: "'a tensor \<Rightarrow> nat" where
  "last_dim t = length (shape t) - 1"

subsection \<open>Views\<close>

text \<open>\<^verbatim>\<open>t.reshape(spec)\<close> keeps the elements in order; one entry of \<open>spec\<close> may be
  \<open>-1\<close> and is inferred from the number of elements.\<close>

definition reshape :: "'a tensor \<Rightarrow> int list \<Rightarrow> error + 'a tensor" where
  "reshape t spec =
    (let known = filter (\<lambda>z. z \<noteq> - 1) spec;
         n = length (data t);
         k = nat (prod_list known)
     in if (\<exists>z \<in> set known. z < 0) \<or> 1 < length (filter (\<lambda>z. z = - 1) spec)
        then Inl RuntimeError
        else if - 1 \<in> set spec then
          (if k = 0 \<or> n mod k \<noteq> 0 then Inl RuntimeError
           else Inr (Tensor (map (\<lambda>z. if z = - 1 then n div k else nat z) spec) (data t)))
        else if k \<noteq> n then Inl RuntimeError
        else Inr (Tensor (map nat spec) (data t)))"

definition index_of :: "'a list \<Rightarrow> 'a \<Rightarrow> nat" where
  "index_of xs a = length (takeWhile (\<lambda>x. x \<noteq> a) xs)"

text \<open>\<^verbatim>\<open>t.permute(*perm)\<close>: dimension \<open>k\<close> of the result is dimension \<open>perm ! k\<close>
  of \<open>t\<close>.\<close>

definition permute :: "'a tensor \<Rightarrow> nat list \<Rightarrow> error + 'a tensor" where
  "permute t perm =
    (if sort perm \<noteq> [0..<length (shape t)] then Inl RuntimeError
     else Inr (tabulate (map (\<lambda>a. shape t ! a) perm)
                 (\<lambda>idx. tget t (map (\<lambda>a. idx ! index_of perm a) [0..<length perm]))))"

text \<open>\<^verbatim>\<open>torch.einsum('lhs->rhs', t)\<close> where \<open>rhs\<close> rearranges the distinct labels of
  \<open>lhs\<close>: a permutation of the dimensions (the only use the program makes of it).\<close>

definition einsum :: "string \<Rightarrow> string \<Rightarrow> 'a tensor \<Rightarrow> error + 'a tensor" where
  "einsum lhs rhs t =
    (if length lhs \<noteq> length (shape t) \<or> \<not> distinct lhs \<or> \<not> distinct rhs \<or> set rhs \<noteq> set lhs
     then Inl RuntimeError
     else permute t (map (index_of lhs) rhs))"

text \<open>\<^verbatim>\<open>t.flatten(a, b)\<close> merges the dimensions \<open>a..b\<close>.\<close>

definition flatten :: "'a tensor \<Rightarrow> nat \<Rightarrow> nat \<Rightarrow> error + 'a tensor" where
  "flatten t a b =
    (if b < a \<or> length (shape t) \<le> b then Inl IndexError
     else Inr (Tensor (take a (shape t) @ [prod_list (take (Suc b - a) (drop a (shape t)))]
                        @ drop (Suc b) (shape t)) (data t)))"

subsection \<open>Sorting\<close>

text \<open>\<^verbatim>\<open>torch.argsort(t, dim)\<close>, ascending. Where values tie, the library may return
  the tied positions in any order; the model takes the stable order.\<close>

definition argsort :: "('a::linorder) tensor \<Rightarrow> nat \<Rightarrow> nat tensor" where
  "argsort t ax =
     tabulate (shape t)
       (\<lambda>idx. sort_key (\<lambda>j. tget t (idx[ax := j])) [0..<shape t ! ax] ! (idx ! ax))"

text \<open>\<^verbatim>\<open>torch.nn.functional.log_softmax(t, dim=0)\<close>.\<close>

definition log_softmax0 :: "real tensor \<Rightarrow> error + real tensor" where
  "log_softmax0 t =
    (case shape t of
       [] \<Rightarrow> Inr (Tensor [] [0])
     | d # ds \<Rightarrow>
         Inr (tabulate (shape t)
                (\<lambda>idx. tget t idx - ln (\<Sum>j\<leftarrow>[0..<d]. exp (tget t (idx[0 := j]))))))"

subsection \<open>Scalars that may leave the finite numbers\<close>

text \<open>The quotient of two zero-dimensional tensors. A zero divisor gives \<^verbatim>\<open>nan\<close> or
  an infinity, and no later sum or product with finite numbers turns either back into
  a finite number: \<open>NonFinite\<close> stands for both.\<close>

datatype scalar = Finite real | NonFinite

definition sdiv :: "real \<Rightarrow> real \<Rightarrow> scalar" where
  "sdiv a b = (if b = 0 then NonFinite else Finite (a / b))"

fun sadd :: "scalar \<Rightarrow> scalar \<Rightarrow> scalar" where
  "sadd (Finite a) (Finite b) = Finite (a + b)"
| "sadd _ _ = NonFinite"

fun smul :: "real \<Rightarrow> scalar \<Rightarrow> scalar" where
  "smul c (Finite a) = Finite (c * a)"
| "smul c NonFinite = NonFinite"

subsection \<open>Floats\<close>

text \<open>Python's \<^verbatim>\<open>float\<close> is the binary64 format: 53 significant bits, and every
  operation returns the float nearest to the exact result, a tie going to the even
  significand. For \<open>2 ^ e \<le> |x| < 2 ^ (e + 1)\<close> the floats around \<open>x\<close> are the
  multiples of \<open>2 ^ (e - 52)\<close>, and \<open>fl x\<close> is the nearest of them. The exponent range
  is taken as unbounded: no overflow and no subnormal numbers.\<close>

definition round_half_even :: "real \<Rightarrow> int" where
  "round_half_even q =
     (let f = \<lfloor>q\<rfloor>
      in if q - of_int f < 1 / 2 then f
         else if 1 / 2 < q - of_int f then f + 1
         else if even f then f else f + 1)"

definition fl :: "real \<Rightarrow> real" where
  "fl x = (if x = 0 then 0
           else let ulp = 2 powr (of_int \<lfloor>log 2 \<bar>x\<bar>\<rfloor> - 52)
                in of_int (round_half_even (x / ulp)) * ulp)"

text \<open>The conversion of an \<^verbatim>\<open>int\<close> that meets a float in an operation, and the
  difference and the product of floats.\<close>

definition float_of_nat :: "nat \<Rightarrow> real" where
  "float_of_nat n = fl (real n)"

definition float_sub :: "real \<Rightarrow> real \<Rightarrow> real" where
  "float_sub a b = fl (a - b)"

definition float_mul :: "real \<Rightarrow> real \<Rightarrow> real" where
  "float_mul a b = fl (a * b)"

section \<open>The encoder\<close>

text \<open>The patch embedding, the Transformer blocks and the normalisation layer are
  library modules: functions on tensors, fields of the module.\<close>

record Encoder =
  patch_embed :: "real tensor \<Rightarrow> real tensor"
  patch_size :: nat
  cls_token :: "real tensor"
  pos_embed :: "real tensor"
  blocks :: "(real tensor \<Rightarrow> real tensor) list"
  encoder_norm :: "real tensor \<Rightarrow> real tensor"

text \<open>\<^verbatim>\<open>Encoder.random_masking\<close>. The noise \<^verbatim>\<open>torch.rand(N, L)\<close> is the table of
  \<open>draw\<close>, the random source of this call. \<open>masking\<close> is the body of the
  function and returns all it computes; \<open>random_masking\<close> returns the three parts
  the program returns. The mask ratio is a float, and \<^verbatim>\<open>L * (1 - mask_ratio)\<close> is
  float arithmetic: the difference is rounded, \<open>L\<close> is converted, the product is
  rounded, and \<^verbatim>\<open>int\<close> truncates the result.\<close>

definition masking ::
  "(nat list \<Rightarrow> real) \<Rightarrow> real tensor \<Rightarrow> real
     \<Rightarrow> error + (int \<times> nat tensor \<times> nat tensor \<times> nat tensor \<times> real tensor \<times> real tensor)" where
  "masking draw x mask_ratio =
    (case shape x of
       [N, L, D] \<Rightarrow>
         let len_keep = py_int (float_mul (float_of_nat L) (float_sub 1 mask_ratio));
             noise = tabulate [N, L] draw;
             ids_shuffle = argsort noise 1;
             ids_restore = argsort ids_shuffle 1
         in bindE (slice 2 1 0 (Some len_keep) ids_shuffle) (\<lambda>ids_keep.
            bindE (repeat (unsqueeze_last ids_keep) [1, 1, int D]) (\<lambda>index.
            bindE (gather x 1 index) (\<lambda>x_masked.
            bindE (slice_assign 2 1 0 (Some len_keep) 0 (ones [N, L])) (\<lambda>mask.
            bindE (gather mask 1 ids_restore) (\<lambda>mask.
              Inr (len_keep, ids_shuffle, ids_restore, ids_keep, x_masked, mask))))))
     | _ \<Rightarrow> Inl ValueError)"

definition random_masking ::
  "(nat list \<Rightarrow> real) \<Rightarrow> real tensor \<Rightarrow> real \<Rightarrow> error + (real tensor \<times> real tensor \<times> nat tensor)" where
  "random_masking draw x mask_ratio =
     bindE (masking draw x mask_ratio)
       (\<lambda>(len_keep, ids_shuffle, ids_restore, ids_keep, x_masked, mask).
          Inr (x_masked, mask, ids_restore))"

text \<open>\<^verbatim>\<open>Encoder.forward\<close>.\<close>

definition Encoder_forward ::
  "Encoder \<Rightarrow> (nat list \<Rightarrow> real) \<Rightarrow> real tensor \<Rightarrow> real
     \<Rightarrow> error + (real tensor \<times> real tensor \<times> nat tensor)" where
  "Encoder_forward e draw x mask_ratio =
    (let x = patch_embed e x in
     bindE (slice 3 1 1 None (pos_embed e)) (\<lambda>pe.
     bindE (binop (+) x pe) (\<lambda>x.
     bindE (random_masking draw x mask_ratio) (\<lambda>(x, mask, ids_restore).
     bindE (slice 3 1 0 (Some 1) (pos_embed e)) (\<lambda>pe0.
     bindE (binop (+) (cls_token e) pe0) (\<lambda>cls.
     bindE (if shape x = [] then Inl IndexError
            else expand cls [int (shape x ! 0), - 1, - 1]) (\<lambda>cls_tokens.
     bindE (cat [cls_tokens, x] 1) (\<lambda>x.
       let x = fold (\<lambda>blk x. blk x) (blocks e) x;
           x = encoder_norm e x
       in Inr (x, mask, ids_restore)))))))))"

section \<open>The decoders\<close>

record Decoder =
  decoder_embed :: "real tensor \<Rightarrow> real tensor"
  mask_token :: "real tensor"
  decoder_pos_embed :: "real tensor"
  decoder_blocks :: "(real tensor \<Rightarrow> real tensor) list"
  decoder_norm :: "real tensor \<Rightarrow> real tensor"
  decoder_pred :: "real tensor \<Rightarrow> real tensor"

text \<open>The restoration step of \<^verbatim>\<open>Decoder.forward\<close>: the placeholder tokens are
  appended to the visible tokens (the summary token left out), and the sequence is
  gathered through \<^verbatim>\<open>ids_restore\<close>.\<close>

definition restore_tokens :: "Decoder \<Rightarrow> real tensor \<Rightarrow> nat tensor \<Rightarrow> error + real tensor" where
  "restore_tokens dec x ids_restore =
    (if length (shape x) < 2 \<or> length (shape ids_restore) < 2 then Inl IndexError
     else
       bindE (repeat (mask_token dec)
                [int (shape x ! 0), int (shape ids_restore ! 1) + 1 - int (shape x ! 1), 1])
         (\<lambda>mask_tokens.
       bindE (slice 3 1 1 None x) (\<lambda>x1.
       bindE (cat [x1, mask_tokens] 1) (\<lambda>x'.
       bindE (repeat (unsqueeze_last ids_restore) [1, 1, int (shape x ! 2)]) (\<lambda>index.
         gather x' 1 index)))))"

text \<open>\<^verbatim>\<open>Decoder.forward\<close>: the prediction and the output of the first block.\<close>

definition Decoder_forward ::
  "Decoder \<Rightarrow> real tensor \<Rightarrow> nat tensor \<Rightarrow> error + (real tensor \<times> real tensor)" where
  "Decoder_forward dec x ids_restore =
    (let x = decoder_embed dec x in
     bindE (restore_tokens dec x ids_restore) (\<lambda>x'.
     bindE (slice 3 1 0 (Some 1) x) (\<lambda>cls.
     bindE (cat [cls, x'] 1) (\<lambda>x.
     bindE (binop (+) x (decoder_pos_embed dec)) (\<lambda>x.
       (case decoder_blocks dec of
          [] \<Rightarrow> Inl IndexError
        | blk0 # blks \<Rightarrow>
            let x_mid = blk0 x;
                x = fold (\<lambda>blk x. blk x) blks x_mid;
                x = decoder_norm dec x;
                x = decoder_pred dec x
            in bindE (slice 3 1 1 None x) (\<lambda>x. Inr (x, x_mid))))))))"

section \<open>The model\<close>

text \<open>The dictionary \<^verbatim>\<open>multi_domain_decoders\<close> has the keys \<^verbatim>\<open>decoder_i\<close>; the model
  keeps the number \<open>i\<close> as the key.\<close>

record CycleMAE =
  num_domains :: nat
  encoder :: Encoder
  multi_domain_decoders :: "nat \<rightharpoonup> Decoder"
  norm_pix_loss :: bool

text \<open>\<^verbatim>\<open>CycleMAE.__init__\<close>: one decoder per domain, \<open>mk i\<close> the freshly initialised
  decoder of domain \<open>i\<close>.\<close>

definition CycleMAE_init :: "nat \<Rightarrow> Encoder \<Rightarrow> (nat \<Rightarrow> Decoder) \<Rightarrow> bool \<Rightarrow> CycleMAE" where
  "CycleMAE_init n enc mk npl =
     \<lparr>num_domains = n, encoder = enc,
      multi_domain_decoders = fold (\<lambda>i d. d(i \<mapsto> mk i)) [0..<n] Map.empty,
      norm_pix_loss = npl\<rparr>"

definition lookup :: "('k \<rightharpoonup> 'v) \<Rightarrow> 'k \<Rightarrow> error + 'v" where
  "lookup d k = (case d k of None \<Rightarrow> Inl KeyError | Some v \<Rightarrow> Inr v)"

text \<open>\<^verbatim>\<open>CycleMAE.patchify\<close> and \<^verbatim>\<open>CycleMAE.unpatchify\<close>, for the patch size \<open>p\<close>.\<close>

definition patchify :: "nat \<Rightarrow> real tensor \<Rightarrow> error + real tensor" where
  "patchify p imgs =
    (if length (shape imgs) < 4 then Inl IndexError
     else if shape imgs ! 2 \<noteq> shape imgs ! 3 then Inl AssertionError
     else if p = 0 then Inl ZeroDivisionError
     else if shape imgs ! 2 mod p \<noteq> 0 then Inl AssertionError
     else
       let h = shape imgs ! 2 div p; w = h in
       bindE (reshape imgs [int (shape imgs ! 0), 3, int h, int p, int w, int p]) (\<lambda>x.
       bindE (einsum ''nchpwq'' ''nhwpqc'' x) (\<lambda>x.
         reshape x [int (shape imgs ! 0), int (h * w), int (p\<^sup>2 * 3)])))"

definition unpatchify :: "nat \<Rightarrow> real tensor \<Rightarrow> error + real tensor" where
  "unpatchify p x =
    (if length (shape x) < 2 then Inl IndexError
     else
       let h = nat (py_int (sqrt (real (shape x ! 1)))); w = h in
       if h * w \<noteq> shape x ! 1 then Inl AssertionError
       else
         bindE (reshape x [int (shape x ! 0), int h, int w, int p, int p, 3]) (\<lambda>x'.
         bindE (einsum ''nhwpqc'' ''nchpwq'' x') (\<lambda>x'.
           reshape x' [int (shape x ! 0), 3, int (h * p), int (h * p)])))"

text \<open>The target of \<^verbatim>\<open>CycleMAE.forward_loss\<close>: the patches of the images, normalised
  patch by patch when \<^verbatim>\<open>norm_pix_loss\<close> is set.\<close>

definition loss_target :: "CycleMAE \<Rightarrow> real tensor \<Rightarrow> error + real tensor" where
  "loss_target m imgs =
     bindE (patchify (patch_size (encoder m)) imgs) (\<lambda>target.
       if norm_pix_loss m then
         bindE (reduce_dim mean_list (last_dim target) True target) (\<lambda>mean.
         bindE (reduce_dim var_list (last_dim target) True target) (\<lambda>var.
         bindE (binop (-) target mean) (\<lambda>centred.
           binop (/) centred (tmap (\<lambda>v. sqrt (v + 1 / 1000000)) var))))
       else Inr target)"

text \<open>\<^verbatim>\<open>CycleMAE.forward_loss\<close>: the mean squared error of every patch. The mask is
  an argument the function does not use.\<close>

definition forward_loss ::
  "CycleMAE \<Rightarrow> real tensor \<Rightarrow> real tensor \<Rightarrow> real tensor \<Rightarrow> error + real tensor" where
  "forward_loss m imgs pred msk =
     bindE (loss_target m imgs) (\<lambda>target.
     bindE (binop (-) pred target) (\<lambda>diff.
       let loss = tmap (\<lambda>v. v\<^sup>2) diff
       in reduce_dim mean_list (last_dim loss) False loss))"

text \<open>\<^verbatim>\<open>.detach()\<close> cuts the gradient; the values stay.\<close>

definition detach :: "'a tensor \<Rightarrow> 'a tensor" where
  "detach t = t"

section \<open>The forward pass\<close>

text \<open>\<^verbatim>\<open>CycleMAE.forward\<close> in its four parts: the first pass, the reconstruction loss,
  the cycle pass and the contrastive loss. The random source \<open>draw k\<close> is the noise
  of the \<open>k\<close>-th call of the encoder.\<close>

text \<open>The body of the first loop: decoder \<open>i\<close> decodes the latent of the whole
  batch, and the loss of every patch against the original images is kept.\<close>

definition decode_step ::
  "CycleMAE \<Rightarrow> real tensor \<Rightarrow> nat tensor \<Rightarrow> real tensor \<Rightarrow> real tensor \<Rightarrow> nat
     \<Rightarrow> real tensor list \<times> real tensor list
     \<Rightarrow> error + (real tensor list \<times> real tensor list)" where
  "decode_step m latent ids_restore original_x msk i =
     (\<lambda>(loss_recons_list, pred_list).
        bindE (lookup (multi_domain_decoders m) i) (\<lambda>dec.
        bindE (Decoder_forward dec latent ids_restore) (\<lambda>(pred, x_mid).
        bindE (forward_loss m original_x pred msk) (\<lambda>loss_recons.
          Inr (loss_recons_list @ [loss_recons], pred_list @ [pred])))))"

text \<open>The size of a domain group, \<^verbatim>\<open>int(loss_recons_list[0].shape[0] / 3)\<close>.\<close>

definition group_size :: "real tensor list \<Rightarrow> error + nat" where
  "group_size loss_recons_list =
     (case loss_recons_list of
        [] \<Rightarrow> Inl IndexError
      | t # _ \<Rightarrow>
          (case shape t of
             [] \<Rightarrow> Inl IndexError
           | n # _ \<Rightarrow> Inr (nat (py_int (real n / 3)))))"

text \<open>\<^verbatim>\<open>(torch.cat(losses) * mask).sum() / mask.sum()\<close>.\<close>

definition masked_mean :: "real tensor list \<Rightarrow> real tensor \<Rightarrow> error + scalar" where
  "masked_mean losses msk =
     bindE (cat losses 0) (\<lambda>c.
     bindE (binop (*) c msk) (\<lambda>w.
       Inr (sdiv (tsum w) (tsum msk))))"

definition recons_loss :: "real tensor list \<Rightarrow> nat \<Rightarrow> real tensor \<Rightarrow> error + scalar" where
  "recons_loss loss_recons_list bz msk =
     bindE (mapE (\<lambda>i. slice 1 0 (int (i * bz)) (Some (int ((i + 1) * bz)))
                        (loss_recons_list ! i)) [0..<3])
       (\<lambda>loss_recons_list_useful. masked_mean loss_recons_list_useful msk)"

text \<open>The body of the inner loop of the cycle pass, for the decoder \<open>j\<close>.\<close>

definition cycle_decode_step ::
  "CycleMAE \<Rightarrow> real tensor \<Rightarrow> nat \<Rightarrow> real tensor \<Rightarrow> real tensor \<Rightarrow> nat tensor \<Rightarrow> nat
     \<Rightarrow> real tensor list \<times> real tensor list list
     \<Rightarrow> error + (real tensor list \<times> real tensor list list)" where
  "cycle_decode_step m original_x bz latent msk ids_restore j =
     (\<lambda>(loss_cycle_list, decoder_mid_feature_list).
        bindE (lookup (multi_domain_decoders m) j) (\<lambda>dec.
        bindE (Decoder_forward dec latent ids_restore) (\<lambda>(pred, decoder_mid_feature).
        bindE (slice 1 0 (int (j * bz)) (Some (int ((j + 1) * bz))) original_x) (\<lambda>imgs_j.
        bindE (slice 1 0 (int (j * bz)) (Some (int ((j + 1) * bz))) pred) (\<lambda>pred_j.
        bindE (slice 1 0 (int (j * bz)) (Some (int ((j + 1) * bz))) msk) (\<lambda>mask_j.
        bindE (forward_loss m imgs_j pred_j mask_j) (\<lambda>loss_cycle_tmp.
          Inr (loss_cycle_list @ [loss_cycle_tmp],
               decoder_mid_feature_list
                 [j := decoder_mid_feature_list ! j @ [decoder_mid_feature]]))))))))"

text \<open>The body of the outer loop of the cycle pass, for the source domain \<open>i\<close>.\<close>

definition cycle_step ::
  "CycleMAE \<Rightarrow> (nat \<Rightarrow> nat list \<Rightarrow> real) \<Rightarrow> real tensor \<Rightarrow> real \<Rightarrow> nat \<Rightarrow> real tensor list \<Rightarrow> nat
     \<Rightarrow> scalar \<times> real tensor list list
     \<Rightarrow> error + (scalar \<times> real tensor list list)" where
  "cycle_step m draw original_x mask_ratio bz pred_list i =
     (\<lambda>(loss_cycle, decoder_mid_feature_list).
        bindE (unpatchify (patch_size (encoder m)) (detach (pred_list ! i))) (\<lambda>img.
        bindE (Encoder_forward (encoder m) (draw (Suc i)) img mask_ratio)
          (\<lambda>(latent, mask, ids_restore).
        bindE (foldE (cycle_decode_step m original_x bz latent mask ids_restore) [0..<3]
                 ([], decoder_mid_feature_list))
          (\<lambda>(loss_cycle_list, decoder_mid_feature_list).
        bindE (masked_mean loss_cycle_list mask) (\<lambda>l.
          Inr (sadd loss_cycle l, decoder_mid_feature_list))))))"

definition tao :: real where
  "tao = 100000"

text \<open>The feature bank of one decoder: its three mid features (one per source
  domain) stacked, the batch split into three groups, the group made the leading
  dimension.\<close>

definition feature_bank :: "real tensor list \<Rightarrow> error + real tensor" where
  "feature_bank features =
     bindE (stack features) (\<lambda>f.
     bindE (reshape f ([3, 3, - 1] @ map int (drop (length (shape f) - 2) (shape f)))) (\<lambda>f.
     bindE (permute f [1, 0, 2, 3, 4]) (\<lambda>f.
       flatten f 1 2)))"

text \<open>The body of the loop of the contrastive loss.\<close>

definition contrastive_step :: "real tensor list list \<Rightarrow> nat \<Rightarrow> real \<Rightarrow> error + real" where
  "contrastive_step decoder_mid_feature_list i loss_contrastive =
     bindE (feature_bank (decoder_mid_feature_list ! i)) (\<lambda>bank.
     bindE (select0 bank i) (\<lambda>row.
     bindE (binop (*) row bank) (\<lambda>prods.
     bindE (reshape prods [3, - 1]) (\<lambda>prods.
     bindE (reduce_dim sum_list 1 False prods) (\<lambda>sims.
     bindE (log_softmax0 (tmap (\<lambda>v. v / tao) sims)) (\<lambda>logp.
     bindE (select0 logp i) (\<lambda>v.
       Inr (loss_contrastive + (- 1) * tget v []))))))))"

text \<open>The first pass: the encoder, then the first loop.\<close>

definition first_pass ::
  "CycleMAE \<Rightarrow> (nat \<Rightarrow> nat list \<Rightarrow> real) \<Rightarrow> real tensor \<Rightarrow> real tensor \<Rightarrow> real
     \<Rightarrow> error + (real tensor \<times> real tensor list \<times> real tensor list)" where
  "first_pass m draw x original_x mask_ratio =
     bindE (Encoder_forward (encoder m) (draw 0) x mask_ratio) (\<lambda>(latent, mask, ids_restore).
     bindE (foldE (decode_step m latent ids_restore original_x mask) [0..<3] ([], []))
       (\<lambda>(loss_recons_list, pred_list).
         Inr (mask, loss_recons_list, pred_list)))"

text \<open>The cycle pass: the outer loop, from \<^verbatim>\<open>loss_cycle = 0\<close> and three empty lists of
  mid features.\<close>

definition cycle_pass ::
  "CycleMAE \<Rightarrow> (nat \<Rightarrow> nat list \<Rightarrow> real) \<Rightarrow> real tensor \<Rightarrow> real \<Rightarrow> nat \<Rightarrow> real tensor list
     \<Rightarrow> error + (scalar \<times> real tensor list list)" where
  "cycle_pass m draw original_x mask_ratio bz pred_list =
     foldE (cycle_step m draw original_x mask_ratio bz pred_list) [0..<3]
       (Finite 0, replicate 3 [])"

text \<open>The contrastive loss: the last loop, from \<^verbatim>\<open>loss_contrastive = 0\<close>.\<close>

definition contrastive_loss :: "real tensor list list \<Rightarrow> error + real" where
  "contrastive_loss decoder_mid_feature_list =
     foldE (contrastive_step decoder_mid_feature_list) [0..<3] 0"

definition forward ::
  "CycleMAE \<Rightarrow> (nat \<Rightarrow> nat list \<Rightarrow> real) \<Rightarrow> real tensor \<Rightarrow> real tensor \<Rightarrow> real \<Rightarrow> error + scalar" where
  "forward m draw x original_x mask_ratio =
     bindE (first_pass m draw x original_x mask_ratio) (\<lambda>(mask, loss_recons_list, pred_list).
     bindE (group_size loss_recons_list) (\<lambda>bz.
     bindE (recons_loss loss_recons_list bz mask) (\<lambda>loss_recons.
     bindE (cycle_pass m draw original_x mask_ratio bz pred_list)
       (\<lambda>(loss_cycle, decoder_mid_feature_list).
     bindE (contrastive_loss decoder_mid_feature_list) (\<lambda>loss_contrastive.
       Inr (sadd (sadd loss_recons (smul 2 loss_cycle))
                 (smul 2 (Finite loss_contrastive))))))))"

section \<open>Notions the properties are stated with\<close>

text \<open>Row \<open>n\<close> of a matrix, as a list.\<close>

definition row :: "'a tensor \<Rightarrow> nat \<Rightarrow> 'a list" where
  "row t n = map (\<lambda>j. tget t [n, j]) [0..<shape t ! 1]"

text \<open>The binary mask that belongs to restoration indices \<open>R\<close> when \<open>k\<close> tokens are
  kept: 0 where the token is kept, 1 where it is removed.\<close>

definition mask_of :: "nat tensor \<Rightarrow> nat \<Rightarrow> real tensor" where
  "mask_of R k = tabulate (shape R) (\<lambda>idx. if tget R idx < k then 0 else 1)"

text \<open>The restoration indices the encoder computes from the noise \<open>draw\<close>.\<close>

definition restore_of :: "(nat list \<Rightarrow> real) \<Rightarrow> nat \<Rightarrow> nat \<Rightarrow> nat tensor" where
  "restore_of draw N L = argsort (argsort (tabulate [N, L] draw) 1) 1"

text \<open>The number of tokens the masking keeps of \<open>L\<close>: the slice \<^verbatim>\<open>[:, :len_keep]\<close>
  of a row of \<open>L\<close> entries.\<close>

definition kept :: "nat \<Rightarrow> real \<Rightarrow> nat" where
  "kept L mask_ratio =
     slice_bound L (py_int (float_mul (float_of_nat L) (float_sub 1 mask_ratio)))"

text \<open>The contract of a library layer: tensors of shape \<open>s\<close> go to tensors of shape
  \<open>s'\<close>.\<close>

definition layer :: "(real tensor \<Rightarrow> real tensor) \<Rightarrow> nat list \<Rightarrow> nat list \<Rightarrow> bool" where
  "layer f s s' = (\<forall>t. wft t \<and> shape t = s \<longrightarrow> wft (f t) \<and> shape (f t) = s')"

text \<open>An encoder for batches of \<open>N\<close> images of \<open>h \<times> h\<close> patches, with embedding width
  \<open>D\<close>, when \<open>K\<close> tokens are kept. The number of patches, which the position
  embedding has a row for, is below \<open>2 ^ 53\<close>: it is a float exactly.\<close>

definition encoder_ok :: "Encoder \<Rightarrow> nat \<Rightarrow> nat \<Rightarrow> nat \<Rightarrow> nat \<Rightarrow> bool" where
  "encoder_ok e N h D K =
     (0 < patch_size e \<and> h * h < 2 ^ 53
      \<and> layer (patch_embed e) [N, 3, h * patch_size e, h * patch_size e] [N, h * h, D]
      \<and> wft (cls_token e) \<and> shape (cls_token e) = [1, 1, D]
      \<and> wft (pos_embed e) \<and> shape (pos_embed e) = [1, Suc (h * h), D]
      \<and> (\<forall>blk \<in> set (blocks e). layer blk [N, Suc K, D] [N, Suc K, D])
      \<and> layer (encoder_norm e) [N, Suc K, D] [N, Suc K, D])"

text \<open>A decoder for \<open>L\<close> patches of \<open>P\<close> pixel values, with decoder width \<open>Dd\<close>.\<close>

definition decoder_ok :: "Decoder \<Rightarrow> nat \<Rightarrow> nat \<Rightarrow> nat \<Rightarrow> nat \<Rightarrow> nat \<Rightarrow> nat \<Rightarrow> bool" where
  "decoder_ok dec N L D K Dd P =
     (layer (decoder_embed dec) [N, Suc K, D] [N, Suc K, Dd]
      \<and> wft (mask_token dec) \<and> shape (mask_token dec) = [1, 1, Dd]
      \<and> wft (decoder_pos_embed dec) \<and> shape (decoder_pos_embed dec) = [1, Suc L, Dd]
      \<and> decoder_blocks dec \<noteq> []
      \<and> (\<forall>blk \<in> set (decoder_blocks dec). layer blk [N, Suc L, Dd] [N, Suc L, Dd])
      \<and> layer (decoder_norm dec) [N, Suc L, Dd] [N, Suc L, Dd]
      \<and> layer (decoder_pred dec) [N, Suc L, Dd] [N, Suc L, P])"

text \<open>A model whose encoder and whose decoders 0, 1 and 2 keep their contracts.\<close>

definition model_ok :: "CycleMAE \<Rightarrow> nat \<Rightarrow> nat \<Rightarrow> nat \<Rightarrow> nat \<Rightarrow> nat \<Rightarrow> bool" where
  "model_ok m N h D K Dd =
     (encoder_ok (encoder m) N h D K
      \<and> (\<forall>i<3. \<exists>dec. multi_domain_decoders m i = Some dec
             \<and> decoder_ok dec N (h * h) D K Dd ((patch_size (encoder m))\<^sup>2 * 3)))"

text \<open>The mean squared error of patch \<open>l\<close> of sample \<open>n\<close>, over its pixel values.\<close>

definition patch_mse :: "real tensor \<Rightarrow> real tensor \<Rightarrow> nat \<Rightarrow> nat \<Rightarrow> real" where
  "patch_mse pred target n l =
     (\<Sum>k < shape pred ! 2. (tget pred [n, l, k] - tget target [n, l, k])\<^sup>2)
       / real (shape pred ! 2)"

text \<open>The rows \<open>[j * bz, (j + 1) * bz)\<close> of a tensor: the batch group of domain \<open>j\<close>.\<close>

definition domain_rows :: "nat \<Rightarrow> nat \<Rightarrow> 'a tensor \<Rightarrow> 'a tensor" where
  "domain_rows bz j t = tabulate (bz # tl (shape t)) (\<lambda>idx. tget t (idx[0 := idx ! 0 + j * bz]))"

text \<open>The masked mean of the losses \<open>ls 0\<close>, \<open>ls 1\<close>, \<open>ls 2\<close> of the three groups, each
  of \<open>bz\<close> rows: row \<open>n\<close> of the batch is row \<open>n mod bz\<close> of group \<open>n div bz\<close>, weighted by
  row \<open>n\<close> of the mask.\<close>

definition masked_score :: "(nat \<Rightarrow> real tensor) \<Rightarrow> real tensor \<Rightarrow> nat \<Rightarrow> nat \<Rightarrow> scalar" where
  "masked_score ls msk bz L =
     sdiv (\<Sum>n<3 * bz. \<Sum>l<L. tget (ls (n div bz)) [n mod bz, l] * tget msk [n, l]) (tsum msk)"

text \<open>Row \<open>g\<close> of a feature bank, flattened, and the dot product.\<close>

definition bank_row :: "real tensor \<Rightarrow> nat \<Rightarrow> real list" where
  "bank_row b g = take (prod_list (tl (shape b))) (drop (g * prod_list (tl (shape b))) (data b))"

definition dot :: "real list \<Rightarrow> real list \<Rightarrow> real" where
  "dot xs ys = sum_list (map2 (*) xs ys)"

text \<open>The similarity of the rows \<open>d\<close> and \<open>g\<close> of a feature bank, and the negative
  log-softmax probability of candidate \<open>d\<close> among the \<open>n\<close> logits \<open>z\<close>.\<close>

definition similarity :: "real tensor \<Rightarrow> nat \<Rightarrow> nat \<Rightarrow> real" where
  "similarity b d g = dot (bank_row b d) (bank_row b g) / tao"

definition neg_log_softmax :: "(nat \<Rightarrow> real) \<Rightarrow> nat \<Rightarrow> nat \<Rightarrow> real" where
  "neg_log_softmax z n d = - (z d - ln (\<Sum>g<n. exp (z g)))"

text \<open>The first two stages of \<open>forward\<close>: the group size it computes and the
  reconstruction loss.\<close>

definition reconstruction_stage ::
  "CycleMAE \<Rightarrow> (nat \<Rightarrow> nat list \<Rightarrow> real) \<Rightarrow> real tensor \<Rightarrow> real tensor \<Rightarrow> real
     \<Rightarrow> error + (nat \<times> scalar)" where
  "reconstruction_stage m draw x original_x mask_ratio =
     bindE (first_pass m draw x original_x mask_ratio) (\<lambda>(mask, loss_recons_list, pred_list).
     bindE (group_size loss_recons_list) (\<lambda>bz.
     bindE (recons_loss loss_recons_list bz mask) (\<lambda>loss_recons.
       Inr (bz, loss_recons))))"

section \<open>Example inputs\<close>

text \<open>A sequence of two samples, four patches each, and a random source.\<close>

definition seq0 :: "real tensor" where
  "seq0 = tabulate [2, 4, 1] (\<lambda>idx. real (10 * (idx ! 0) + idx ! 1))"

definition draw0 :: "nat list \<Rightarrow> real" where
  "draw0 idx = real ((7 * (idx ! 1) + 3 * (idx ! 0)) mod 11) / 11"

text \<open>A sequence of one sample of a hundred patches.\<close>

definition seq100 :: "real tensor" where
  "seq100 = tabulate [1, 100, 1] (\<lambda>idx. real (idx ! 1))"

text \<open>A small model: images of \<open>2 \<times> 2\<close> patches of one pixel, embeddings of width 1.
  The patch embedding reads the first channel; decoder \<open>i\<close> has the mask token \<open>i\<close>
  and one block, which adds \<open>i\<close>; its prediction copies the feature to the three
  pixel values of the patch.\<close>

definition toy_encoder :: Encoder where
  "toy_encoder =
     \<lparr>patch_embed = (\<lambda>t. tabulate [shape t ! 0, 4, 1]
                         (\<lambda>idx. tget t [idx ! 0, 0, idx ! 1 div 2, idx ! 1 mod 2])),
      patch_size = 1,
      cls_token = Tensor [1, 1, 1] [0],
      pos_embed = Tensor [1, 5, 1] [0, 0, 0, 0, 0],
      blocks = [\<lambda>t. t],
      encoder_norm = (\<lambda>t. t)\<rparr>"

definition toy_decoder :: "nat \<Rightarrow> Decoder" where
  "toy_decoder i =
     \<lparr>decoder_embed = (\<lambda>t. t),
      mask_token = Tensor [1, 1, 1] [real i],
      decoder_pos_embed = Tensor [1, 5, 1] [0, 0, 0, 0, 0],
      decoder_blocks = [tmap (\<lambda>v. v + real i)],
      decoder_norm = (\<lambda>t. t),
      decoder_pred = (\<lambda>t. tabulate [shape t ! 0, shape t ! 1, 3]
                          (\<lambda>idx. tget t [idx ! 0, idx ! 1, 0]))\<rparr>"

definition toy_model :: "nat \<Rightarrow> CycleMAE" where
  "toy_model n = CycleMAE_init n toy_encoder toy_decoder False"

definition toy_batch :: "nat \<Rightarrow> real tensor" where
  "toy_batch N = tabulate [N, 3, 2, 2] (\<lambda>idx. real (idx ! 0 + 2 * (idx ! 2) + idx ! 3))"

definition toy_draw :: "nat \<Rightarrow> nat list \<Rightarrow> real" where
  "toy_draw k idx = real ((7 * (idx ! 1) + 3 * (idx ! 0) + 5 * k) mod 11) / 11"

section \<open>Basic facts\<close>

lemma bindE_Inr [simp]: "bindE (Inr v) f = f v"
  by (simp add: bindE_def)

lemma bindE_Inl [simp]: "bindE (Inl e) f = Inl e"
  by (simp add: bindE_def)

lemma bindE_eq_Inr: "bindE m f = Inr v \<longleftrightarrow> (\<exists>u. m = Inr u \<and> f u = Inr v)"
  by (cases m) simp_all

lemma range3: "[0..<3] = [0, 1, 2]"
  by (simp add: upt_rec)

lemma ravel_less: "list_all2 (<) idx s \<Longrightarrow> ravel s idx < prod_list s"
proof (induction idx s rule: list_all2_induct)
  case Nil
  then show ?case by simp
next
  case (Cons i js d ds)
  have "i * prod_list ds + ravel ds js < i * prod_list ds + prod_list ds"
    using Cons.IH by simp
  also have "\<dots> = Suc i * prod_list ds" by simp
  also have "\<dots> \<le> d * prod_list ds"
    using Cons.hyps(1) by (intro mult_le_mono1) simp
  finally show ?case by simp
qed

lemma unravel_ravel: "list_all2 (<) idx s \<Longrightarrow> unravel s (ravel s idx) = idx"
proof (induction idx s rule: list_all2_induct)
  case Nil
  then show ?case by simp
next
  case (Cons i js d ds)
  have r: "ravel ds js < prod_list ds" using Cons.hyps(2) by (rule ravel_less)
  then show ?case using Cons.IH by simp
qed

lemma unravel_inb: "k < prod_list s \<Longrightarrow> list_all2 (<) (unravel s k) s"
proof (induction s arbitrary: k)
  case Nil
  then show ?case by simp
next
  case (Cons d ds)
  have pos: "0 < prod_list ds" using Cons.prems by (cases "prod_list ds = 0") auto
  have "k div prod_list ds < d"
    using Cons.prems pos by (simp add: less_mult_imp_div_less mult.commute)
  moreover have "k mod prod_list ds < prod_list ds" using pos by simp
  ultimately show ?case using Cons.IH by simp
qed

lemma ravel_unravel: "k < prod_list s \<Longrightarrow> ravel s (unravel s k) = k"
proof (induction s arbitrary: k)
  case Nil
  then show ?case by simp
next
  case (Cons d ds)
  have pos: "0 < prod_list ds" using Cons.prems by (cases "prod_list ds = 0") auto
  then show ?case using Cons.IH [of "k mod prod_list ds"] by simp
qed

lemma wf_tabulate [simp]: "wft (tabulate s f)"
  by (simp add: wft_def tabulate_def)

lemma shape_tabulate [simp]: "shape (tabulate s f) = s"
  by (simp add: tabulate_def)

lemma tget_tabulate [simp]: "list_all2 (<) idx s \<Longrightarrow> tget (tabulate s f) idx = f idx"
  by (simp add: tget_def tabulate_def ravel_less unravel_ravel)

lemma tabulate_cong:
  "(\<And>idx. list_all2 (<) idx s \<Longrightarrow> f idx = g idx) \<Longrightarrow> tabulate s f = tabulate s g"
  by (simp add: tabulate_def unravel_inb)

lemma tensor_eqI:
  assumes "wft a" "wft b" "shape a = shape b"
    and "\<And>idx. list_all2 (<) idx (shape a) \<Longrightarrow> tget a idx = tget b idx"
  shows "a = b"
proof -
  have len: "length (data a) = length (data b)" using assms(1-3) by (simp add: wft_def)
  have "data a ! k = data b ! k" if "k < length (data a)" for k
  proof -
    have k: "k < prod_list (shape a)" using that assms(1) by (simp add: wft_def)
    have "tget a (unravel (shape a) k) = tget b (unravel (shape a) k)"
      using assms(4) unravel_inb [OF k] by simp
    then show ?thesis using k assms(3) by (simp add: tget_def ravel_unravel)
  qed
  then have "data a = data b" using len by (simp add: list_eq_iff_nth_eq)
  then show ?thesis using assms(3) by (simp add: tensor.expand)
qed

lemma tabulate_tget: "wft t \<Longrightarrow> tabulate (shape t) (tget t) = t"
  by (rule tensor_eqI) simp_all

lemma tget_in_data: "wft t \<Longrightarrow> list_all2 (<) idx (shape t) \<Longrightarrow> tget t idx \<in> set (data t)"
  by (simp add: tget_def wft_def ravel_less)

lemma data_tabulate_subset:
  "set (data (tabulate s f)) \<subseteq> f ` {idx. list_all2 (<) idx s}"
  by (auto simp: tabulate_def unravel_inb)

lemma data_tabulate_all:
  "(\<And>idx. list_all2 (<) idx s \<Longrightarrow> P (f idx)) \<Longrightarrow> \<forall>v \<in> set (data (tabulate s f)). P v"
  using data_tabulate_subset [of s f] by auto

section \<open>Sorting\<close>

lemma insort_key_cong_set:
  "f x = g x \<Longrightarrow> (\<And>y. y \<in> set xs \<Longrightarrow> f y = g y) \<Longrightarrow> insort_key f x xs = insort_key g x xs"
  by (induction xs) auto

lemma sort_key_cong_set:
  "(\<And>y. y \<in> set xs \<Longrightarrow> f y = g y) \<Longrightarrow> sort_key f xs = sort_key g xs"
proof (induction xs)
  case Nil
  then show ?case by simp
next
  case (Cons x xs)
  have "sort_key f xs = sort_key g xs" using Cons by simp
  moreover have "insort_key f x (sort_key g xs) = insort_key g x (sort_key g xs)"
    using Cons.prems by (intro insort_key_cong_set) simp_all
  ultimately show ?case by simp
qed

text \<open>The argsort of a permutation of \<open>[0..<L]\<close> is its inverse.\<close>

lemma argsort_perm_inverse:
  assumes len: "length p = L" and st: "set p = {0..<L}"
  defines "q \<equiv> sort_key (\<lambda>j. p ! j) [0..<L]"
  shows "\<forall>i<L. p ! (q ! i) = i \<and> q ! (p ! i) = i"
proof -
  have dp: "distinct p" using len st by (intro card_distinct) simp
  have lq: "length q = L" and sq: "set q = {0..<L}" and dq: "distinct q"
    by (simp_all add: q_def)
  have inj: "inj_on (nth p) (set q)"
    using dp len sq by (intro inj_on_nth) auto
  have "map (nth p) q = [0..<L]"
  proof (rule sorted_distinct_set_unique)
    show "sorted (map (nth p) q)" unfolding q_def by (rule sorted_sort_key)
    show "distinct (map (nth p) q)" using dq inj by (simp add: distinct_map)
    have "nth p ` {0..<L} = set p" using len by (auto simp: set_conv_nth)
    then show "set (map (nth p) q) = set [0..<L]" using sq st by simp
  qed simp_all
  then have pq: "p ! (q ! i) = i" if "i < L" for i
    using that lq by (metis nth_map nth_upt add_0)
  have qp: "q ! (p ! i) = i" if "i < L" for i
  proof -
    have pi: "p ! i < L" using that len st by (metis atLeastLessThan_iff nth_mem)
    then have "q ! (p ! i) < L" using lq sq by (metis atLeastLessThan_iff nth_mem)
    moreover have "p ! (q ! (p ! i)) = p ! i" using pi by (rule pq)
    ultimately show ?thesis using dp len that by (simp add: nth_eq_iff_index_eq)
  qed
  show ?thesis using pq qp by simp
qed

lemma argsort_row:
  fixes t :: "('a::linorder) tensor"
  assumes "shape t = [N, L]" "n < N" "l < L"
  shows "tget (argsort t (Suc 0)) [n, l] = sort_key (\<lambda>j. tget t [n, j]) [0..<L] ! l"
  using assms by (simp add: argsort_def)

lemma sum_perm_row:
  fixes g :: "nat \<Rightarrow> real"
  assumes "length q = L" "set q = {0..<L}"
  shows "(\<Sum>l<L. g (q ! l)) = (\<Sum>j<L. g j)"
proof -
  have dq: "distinct q" using assms by (intro card_distinct) simp
  have "(\<Sum>l<L. g (q ! l)) = sum_list (map (\<lambda>l. g (q ! l)) [0..<L])"
    by (simp add: sum_list_distinct_conv_sum_set atLeast0LessThan)
  also have "\<dots> = sum_list (map g (map (nth q) [0..<L]))" by (simp add: comp_def)
  also have "map (nth q) [0..<L] = q" using assms(1) map_nth by auto
  also have "sum_list (map g q) = sum g (set q)" using dq by (rule sum_list_distinct_conv_sum_set)
  finally show ?thesis using assms(2) by (simp add: atLeast0LessThan)
qed

lemma argsort_shape [simp]: "shape (argsort t ax) = shape t"
  by (simp add: argsort_def)

lemma argsort_wf [simp]: "wft (argsort t ax)"
  by (simp add: argsort_def)

lemma argsort_entries:
  fixes t :: "('a::linorder) tensor"
  assumes "shape t = [N, L]"
  shows "\<forall>v \<in> set (data (argsort t (Suc 0))). v < L"
  unfolding argsort_def
proof (rule data_tabulate_all)
  fix idx assume "list_all2 (<) idx (shape t)"
  then obtain n l where idx: "idx = [n, l]" and l: "l < L"
    using assms by (auto simp: list_all2_Cons2)
  have "sort_key (\<lambda>j. tget t (idx[Suc 0 := j])) [0..<L] ! l \<in> set (sort_key (\<lambda>j. tget t (idx[Suc 0 := j])) [0..<L])"
    using l by (intro nth_mem) simp
  then show "sort_key (\<lambda>j. tget t (idx[Suc 0 := j])) [0..<shape t ! Suc 0] ! (idx ! Suc 0) < L"
    using assms idx by simp
qed

lemma argsort_tget_less:
  fixes t :: "('a::linorder) tensor"
  assumes "shape t = [N, L]" "n < N" "l < L"
  shows "tget (argsort t (Suc 0)) [n, l] < L"
proof -
  have "tget (argsort t (Suc 0)) [n, l] \<in> set (data (argsort t (Suc 0)))"
    using assms by (intro tget_in_data) simp_all
  then show ?thesis using argsort_entries [OF assms(1)] by blast
qed

lemma argsort_row_list:
  fixes t :: "('a::linorder) tensor"
  assumes "shape t = [N, L]" "n < N"
  shows "row (argsort t (Suc 0)) n = sort_key (\<lambda>j. tget t [n, j]) [0..<L]"
  using assms by (intro nth_equalityI) (simp_all add: row_def argsort_row)

lemma argsort_row_perm:
  fixes t :: "('a::linorder) tensor"
  assumes "shape t = [N, L]" "n < N"
  shows "length (row (argsort t (Suc 0)) n) = L" "set (row (argsort t (Suc 0)) n) = {0..<L}"
  using assms by (simp_all add: argsort_row_list)

lemma argsort_argsort:
  fixes t :: "('a::linorder) tensor"
  assumes "shape t = [N, L]" "n < N" "i < L"
  shows "tget (argsort t (Suc 0)) [n, tget (argsort (argsort t (Suc 0)) (Suc 0)) [n, i]] = i"
    and "tget (argsort (argsort t (Suc 0)) (Suc 0)) [n, tget (argsort t (Suc 0)) [n, i]] = i"
proof -
  let ?S = "argsort t (Suc 0)"
  let ?p = "row ?S n"
  let ?q = "sort_key (\<lambda>j. ?p ! j) [0..<L]"
  have len: "length ?p = L" and st: "set ?p = {0..<L}"
    using argsort_row_perm [OF assms(1,2)] by simp_all
  have inv: "\<forall>i<L. ?p ! (?q ! i) = i \<and> ?q ! (?p ! i) = i"
    using len st by (rule argsort_perm_inverse)
  have pj: "?p ! j = tget ?S [n, j]" if "j < L" for j
    using that assms(1) by (simp add: row_def)
  have "sort_key (\<lambda>j. tget ?S [n, j]) [0..<L] = ?q"
    by (rule sort_key_cong_set) (simp add: pj)
  then have R: "tget (argsort ?S (Suc 0)) [n, l] = ?q ! l" if "l < L" for l
    using that assms(1,2) by (simp add: argsort_row)
  have ql: "?q ! l < L" if "l < L" for l
  proof -
    have "?q ! l \<in> set ?q" using that by (intro nth_mem) simp
    then show ?thesis by simp
  qed
  have pl: "?p ! l < L" if "l < L" for l
    using that len st by (metis atLeastLessThan_iff nth_mem)
  show "tget ?S [n, tget (argsort ?S (Suc 0)) [n, i]] = i"
    using inv [rule_format, OF assms(3)] R [OF assms(3)] pj [OF ql [OF assms(3)]] by simp
  show "tget (argsort ?S (Suc 0)) [n, tget ?S [n, i]] = i"
    using inv [rule_format, OF assms(3)] pj [OF assms(3)] R [OF pl [OF assms(3)]] by simp
qed

lemma gather_Inr:
  assumes "ax < length (shape x)" "length (shape index) = length (shape x)"
    and "list_all2 (\<le>) ((shape index)[ax := 0]) ((shape x)[ax := 0])"
    and "\<forall>k \<in> set (data index). k < shape x ! ax"
  shows "gather x ax index = Inr (tabulate (shape index) (\<lambda>idx. tget x (idx[ax := tget index idx])))"
  using assms by (auto simp: gather_def)

lemma slice_bound_int [simp]: "slice_bound n (int k) = min n k"
  by (simp add: slice_bound_def)

lemma shape_ones [simp]: "shape (ones s) = s"
  by (simp add: ones_def)

lemma slice_bound_0 [simp]: "slice_bound n 0 = 0"
  by (simp add: slice_bound_def)

lemma slice_bound_le [simp]: "slice_bound n i \<le> n"
  by (auto simp: slice_bound_def)

lemma masking_char:
  fixes r :: real and draw :: "nat list \<Rightarrow> real"
  assumes sx: "shape x = [N, L, D]"
  defines "K \<equiv> py_int (float_mul (float_of_nat L) (float_sub 1 r))"
  defines "K' \<equiv> slice_bound L K"
  defines "S \<equiv> argsort (tabulate [N, L] draw) (Suc 0)"
  defines "R \<equiv> argsort S (Suc 0)"
  shows "\<exists>ids_keep xm msk.
     masking draw x r = Inr (K, S, R, ids_keep, xm, msk)
     \<and> wft xm \<and> shape xm = [N, K', D] \<and> wft msk \<and> shape msk = [N, L]
     \<and> (\<forall>n<N. \<forall>k<K'. \<forall>d<D. tget xm [n, k, d] = tget x [n, tget S [n, k], d])
     \<and> (\<forall>n<N. \<forall>l<L. tget msk [n, l] = (if tget R [n, l] < K' then 0 else 1))"
proof -
  have sS: "shape S = [N, L]" and sR: "shape R = [N, L]" by (simp_all add: S_def R_def)
  define ids_keep where "ids_keep = tabulate [N, K'] (\<lambda>idx. tget S (idx[Suc 0 := idx ! Suc 0 + 0]))"
  have s1: "slice 2 (Suc 0) 0 (Some K) S = Inr ids_keep"
    using sS by (simp add: slice_def ids_keep_def Let_def flip: K'_def)
  have k1: "tget ids_keep [n, k] = tget S [n, k]" if "n < N" "k < K'" for n k
    using that by (simp add: ids_keep_def)
  define index where "index = tabulate [N, K', D]
     (\<lambda>idx. tget (unsqueeze_last ids_keep) (drop 0 (map2 (\<lambda>i d. i mod d) idx [N, K', 1])))"
  have s2: "repeat (unsqueeze_last ids_keep) [1, 1, int D] = Inr index"
    by (simp add: repeat_def unsqueeze_last_def ids_keep_def index_def Let_def)
  have k2: "tget index [n, k, d] = tget S [n, k]" if "n < N" "k < K'" "d < D" for n k d
  proof -
    have "tget (unsqueeze_last ids_keep) [n, k, 0] = tget ids_keep [n, k]"
      by (simp add: unsqueeze_last_def tget_def ids_keep_def)
    then show ?thesis using that by (simp add: index_def k1)
  qed
  have K'L: "K' \<le> L" by (simp add: K'_def)
  have ent: "\<forall>v \<in> set (data index). v < L"
    unfolding index_def
  proof (rule data_tabulate_all)
    fix idx assume "list_all2 (<) idx [N, K', D]"
    then obtain n k d where idx: "idx = [n, k, d]" and b: "n < N" "k < K'" "d < D"
      by (auto simp: list_all2_Cons2)
    have "tget index [n, k, d] < L"
      using b K'L by (simp add: k2 S_def argsort_tget_less)
    then show "tget (unsqueeze_last ids_keep) (drop 0 (map2 (\<lambda>i d. i mod d) idx [N, K', 1])) < L"
      using idx b by (simp add: index_def)
  qed
  define xm where "xm = tabulate [N, K', D] (\<lambda>idx. tget x (idx[Suc 0 := tget index idx]))"
  have s3: "gather x (Suc 0) index = Inr xm"
    using sx ent by (simp add: gather_Inr xm_def index_def)
  define m0 where "m0 = tabulate [N, L] (\<lambda>idx. if 0 \<le> idx ! Suc 0 \<and> idx ! Suc 0 < K' then 0 else (1::real))"
  have "tabulate [N, L] (\<lambda>idx. if idx ! Suc 0 < K' then 0 else tget (ones [N, L]) idx) = m0"
    unfolding m0_def ones_def by (rule tabulate_cong) simp
  then have s4: "slice_assign 2 (Suc 0) 0 (Some K) 0 (ones [N, L]) = Inr m0"
    by (simp add: slice_assign_def Let_def flip: K'_def)
  define msk where "msk = tabulate [N, L] (\<lambda>idx. tget m0 (idx[Suc 0 := tget R idx]))"
  have s5: "gather m0 (Suc 0) R = Inr msk"
    using sR argsort_entries [OF sS] by (simp add: gather_Inr msk_def m0_def R_def)
  have m: "masking draw x r = Inr (K, S, R, ids_keep, xm, msk)"
    using sx s1 s2 s3 s4 s5 by (simp add: masking_def K_def S_def R_def Let_def)
  have x1: "tget xm [n, k, d] = tget x [n, tget S [n, k], d]" if "n < N" "k < K'" "d < D" for n k d
    using that by (simp add: xm_def k2)
  have m1: "tget msk [n, l] = (if tget R [n, l] < K' then 0 else 1)" if "n < N" "l < L" for n l
  proof -
    have "tget R [n, l] < L" using that sS by (simp add: R_def argsort_tget_less)
    then show ?thesis using that by (simp add: msk_def m0_def)
  qed
  show ?thesis using m x1 m1 by (simp add: xm_def msk_def)
qed

lemma py_int_nonneg: "0 \<le> r \<Longrightarrow> py_int r = \<lfloor>r\<rfloor>"
  by (simp add: py_int_def)

lemma indicator_sum:
  assumes "K' \<le> L"
  shows "(\<Sum>j<L. if j < K' then 0 else (1::real)) = real L - real K'"
proof -
  have "(\<Sum>j<L. if j < K' then 0 else (1::real)) = (\<Sum>j \<in> {..<L} \<inter> - {j. j < K'}. 1)"
    by (simp add: sum.If_cases)
  also have "{..<L} \<inter> - {j. j < K'} = {K'..<L}" by auto
  finally show ?thesis using assms by simp
qed

lemma row_argsort_nth:
  fixes t :: "('a::linorder) tensor"
  assumes "shape t = [N, L]" "l < L"
  shows "row (argsort t (Suc 0)) n ! l = tget (argsort t (Suc 0)) [n, l]"
  using assms by (simp add: row_def)

section \<open>Floats\<close>

lemma round_half_even_ge: "of_int k \<le> q \<Longrightarrow> k \<le> round_half_even q"
proof -
  assume "of_int k \<le> q"
  then have "k \<le> \<lfloor>q\<rfloor>" by (simp add: le_floor_iff)
  then show ?thesis by (auto simp: round_half_even_def Let_def)
qed

lemma round_half_even_le: "q \<le> of_int k \<Longrightarrow> round_half_even q \<le> k"
proof -
  assume a: "q \<le> of_int k"
  have f: "\<lfloor>q\<rfloor> \<le> k" using a by (simp add: floor_le_iff)
  show ?thesis
  proof (cases "q - of_int \<lfloor>q\<rfloor> < 1 / 2")
    case True then show ?thesis using f by (simp add: round_half_even_def Let_def)
  next
    case False
    then have "of_int \<lfloor>q\<rfloor> < q" by linarith
    then have "of_int \<lfloor>q\<rfloor> < (of_int k :: real)" using a by linarith
    then have "\<lfloor>q\<rfloor> < k" by simp
    then show ?thesis by (auto simp: round_half_even_def Let_def)
  qed
qed

lemma round_half_even_int [simp]: "round_half_even (of_int k) = k"
  by (simp add: round_half_even_def)

lemma round_half_even_numeral [simp]: "round_half_even (numeral k) = numeral k"
  using round_half_even_int [of "numeral k"] by simp

lemma log2_bounds:
  assumes "0 < (x::real)"
  shows "2 powr (of_int \<lfloor>log 2 x\<rfloor>) \<le> x" "x < 2 powr (of_int \<lfloor>log 2 x\<rfloor> + 1)"
proof -
  have "of_int \<lfloor>log 2 x\<rfloor> \<le> log 2 x" by simp
  then show "2 powr (of_int \<lfloor>log 2 x\<rfloor>) \<le> x"
    using assms le_log_iff [of 2 x "of_int \<lfloor>log 2 x\<rfloor>"] by simp
  have "log 2 x < of_int \<lfloor>log 2 x\<rfloor> + 1" by linarith
  then show "x < 2 powr (of_int \<lfloor>log 2 x\<rfloor> + 1)"
    using assms log_less_iff [of 2 x "of_int \<lfloor>log 2 x\<rfloor> + 1"] by simp
qed

lemma floor_log2_eq:
  assumes "0 < (x::real)" "2 powr (of_int e) \<le> x" "x < 2 powr (of_int e + 1)"
  shows "\<lfloor>log 2 x\<rfloor> = e"
proof (rule floor_unique)
  show "of_int e \<le> log 2 x" using assms by (simp add: le_log_iff)
  show "log 2 x < of_int e + 1" using assms by (simp add: log_less_iff)
qed

lemma fl_nonneg: "0 \<le> x \<Longrightarrow> 0 \<le> fl x"
proof -
  assume a: "0 \<le> x"
  have "0 \<le> round_half_even (x / u)" if "0 < u" for u :: real
    using a that by (intro round_half_even_ge) simp
  then show ?thesis by (simp add: fl_def Let_def)
qed

lemma ulp_inverse:
  assumes "e \<le> 52"
  shows "(2::real) powr (of_int e - 52) = 1 / 2 ^ nat (52 - e)"
proof -
  have "2 powr (of_int e - 52) = 2 powr (- real (nat (52 - e)))" using assms by simp
  also have "\<dots> = 1 / 2 powr (real (nat (52 - e)))" by (simp add: powr_minus_divide)
  also have "\<dots> = 1 / 2 ^ nat (52 - e)" by (simp add: powr_realpow)
  finally show ?thesis .
qed

lemma fl_ge_nat:
  assumes nx: "real n \<le> x" and n: "n < 2 ^ 53"
  shows "real n \<le> fl x"
proof (cases "x = 0")
  case True then show ?thesis using nx by (simp add: fl_def)
next
  case False
  then have x: "0 < x" using nx by (smt (verit) of_nat_0_le_iff)
  define e where "e = \<lfloor>log 2 x\<rfloor>"
  define u :: real where "u = 2 powr (of_int e - 52)"
  have u: "0 < u" by (simp add: u_def)
  have f: "fl x = of_int (round_half_even (x / u)) * u"
    using x by (simp add: fl_def Let_def u_def e_def)
  show ?thesis
  proof (cases "e \<le> 52")
    case True
    define M where "M = (2::nat) ^ nat (52 - e)"
    have uM: "u = 1 / real M" unfolding u_def M_def using True by (simp add: ulp_inverse)
    have "real_of_int (int (n * M)) \<le> x / u" using nx by (simp add: uM mult_right_mono)
    then have "int (n * M) \<le> round_half_even (x / u)" by (rule round_half_even_ge)
    then have "real_of_int (int (n * M)) \<le> of_int (round_half_even (x / u))" by linarith
    then have le: "real (n * M) * u \<le> of_int (round_half_even (x / u)) * u"
      using u by (simp add: mult_right_mono)
    have eq: "real (n * M) * u = real n" by (simp add: uM M_def)
    show ?thesis unfolding f using le [unfolded eq] .
  next
    case False
    then have e: "53 \<le> e" by simp
    have "2 powr (of_int e) \<le> x" unfolding e_def using x by (rule log2_bounds)
    moreover have "2 powr (of_int e) = 2 ^ 52 * u"
      by (simp add: u_def powr_diff)
    ultimately have "real_of_int (2 ^ 52) \<le> x / u" using u by (simp add: pos_le_divide_eq)
    then have "2 ^ 52 \<le> round_half_even (x / u)" by (rule round_half_even_ge)
    then have "(2::real) ^ 52 \<le> of_int (round_half_even (x / u))" 
      by (metis of_int_le_iff of_int_numeral of_int_power)
    then have A: "2 ^ 52 * u \<le> of_int (round_half_even (x / u)) * u"
      using u by (simp add: mult_right_mono)
    have B: "(2::real) powr 53 \<le> 2 powr (of_int e)" using e by (intro powr_mono) simp_all
    have E: "(2::real) powr 53 = 2 ^ 53" by simp
    have D: "real n \<le> 2 ^ 53" using n
      by (metis less_imp_le of_nat_le_iff of_nat_numeral of_nat_power)
    show ?thesis unfolding f using A B D E \<open>2 powr (of_int e) = 2 ^ 52 * u\<close> by linarith
  qed
qed

lemma fl_le_nat:
  assumes x0: "0 \<le> x" and nx: "x \<le> real n" and n: "n < 2 ^ 53"
  shows "fl x \<le> real n"
proof (cases "x = 0")
  case True then show ?thesis by (simp add: fl_def)
next
  case False
  then have x: "0 < x" using x0 by simp
  define e where "e = \<lfloor>log 2 x\<rfloor>"
  define u :: real where "u = 2 powr (of_int e - 52)"
  have u: "0 < u" by (simp add: u_def)
  have f: "fl x = of_int (round_half_even (x / u)) * u"
    using x by (simp add: fl_def Let_def u_def e_def)
  have "real n < 2 ^ 53" using n
    by (metis of_nat_less_iff of_nat_numeral of_nat_power)
  moreover have "2 powr (of_int e) \<le> x" unfolding e_def using x by (rule log2_bounds)
  ultimately have "(2::real) powr (of_int e) < 2 powr 53" using nx by simp
  then have "real_of_int e < 53" by (rule powr_less_cancel) simp
  then have e: "e \<le> 52" by simp
  define M where "M = (2::nat) ^ nat (52 - e)"
  have uM: "u = 1 / real M" unfolding u_def M_def using e by (simp add: ulp_inverse)
  have "x / u \<le> real_of_int (int (n * M))" using nx by (simp add: uM mult_right_mono)
  then have "round_half_even (x / u) \<le> int (n * M)" by (rule round_half_even_le)
  then have "of_int (round_half_even (x / u)) \<le> real_of_int (int (n * M))" by linarith
  then have le: "of_int (round_half_even (x / u)) * u \<le> real (n * M) * u"
    using u by (simp add: mult_right_mono)
  have eq: "real (n * M) * u = real n" by (simp add: uM M_def)
  show ?thesis unfolding f using le [unfolded eq] .
qed

lemma fl_nat: "n < 2 ^ 53 \<Longrightarrow> fl (real n) = real n"
  using fl_ge_nat [of n "real n"] fl_le_nat [of "real n" n] by simp

lemma fl_eval:
  assumes "0 < x" "2 powr (of_int e) \<le> x" "x < 2 powr (of_int e + 1)"
  shows "fl x = of_int (round_half_even (x / 2 powr (of_int e - 52))) * 2 powr (of_int e - 52)"
  using assms floor_log2_eq [OF assms] by (simp add: fl_def Let_def)

lemma fl_half: "fl (1 / 2) = 1 / 2"
  using fl_eval [of "1 / 2" "-1"] by (simp add: powr_minus_divide)

lemma fl_quarter: "fl (1 / 4) = 1 / 4"
  using fl_eval [of "1 / 4" "-2"] by (simp add: powr_minus_divide)


text \<open>The product \<^verbatim>\<open>L * (1 - mask_ratio)\<close> of the masking.\<close>

lemma float_product_bounds:
  assumes r0: "0 \<le> r" and r1: "r < 1" and L: "L < 2 ^ 53"
  shows "0 \<le> float_mul (float_of_nat L) (float_sub 1 r)"
    and "float_mul (float_of_nat L) (float_sub 1 r) \<le> real L"
proof -
  have y0: "0 \<le> float_sub 1 r" unfolding float_sub_def using r1 by (intro fl_nonneg) simp
  have "fl (1 - r) \<le> real 1" using r0 r1 by (intro fl_le_nat) simp_all
  then have y1: "float_sub 1 r \<le> 1" by (simp add: float_sub_def)
  have n: "float_of_nat L = real L" unfolding float_of_nat_def using L by (rule fl_nat)
  have p0: "0 \<le> real L * float_sub 1 r" using y0 by simp
  have p1: "real L * float_sub 1 r \<le> real L" using y1 by (simp add: mult_left_le)
  show "0 \<le> float_mul (float_of_nat L) (float_sub 1 r)"
    unfolding float_mul_def n using p0 by (rule fl_nonneg)
  show "float_mul (float_of_nat L) (float_sub 1 r) \<le> real L"
    unfolding float_mul_def n using p0 p1 L by (rule fl_le_nat)
qed

lemma float_product_zero:
  assumes L: "L < 2 ^ 53"
  shows "float_mul (float_of_nat L) (float_sub 1 0) = real L"
proof -
  have "fl (real 1) = real 1" by (rule fl_nat) simp
  then have "float_sub 1 0 = 1" by (simp add: float_sub_def)
  then show ?thesis using fl_nat [OF L] by (simp add: float_mul_def float_of_nat_def)
qed

lemma float_product_nonpos:
  assumes r: "r \<le> 0" and L: "L < 2 ^ 53"
  shows "real L \<le> float_mul (float_of_nat L) (float_sub 1 r)"
proof -
  have "real 1 \<le> fl (1 - r)" using r by (intro fl_ge_nat) simp_all
  then have y1: "1 \<le> float_sub 1 r" by (simp add: float_sub_def)
  have n: "float_of_nat L = real L" unfolding float_of_nat_def using L by (rule fl_nat)
  have "real L * 1 \<le> real L * float_sub 1 r" using y1 by (intro mult_left_mono) simp_all
  then have "real L \<le> real L * float_sub 1 r" by simp
  then show ?thesis unfolding float_mul_def n using L by (rule fl_ge_nat)
qed

lemma float_product_half: "float_mul (float_of_nat 4) (float_sub 1 (1 / 2)) = 2"
  using fl_nat [of 4] fl_nat [of 2] by (simp add: float_mul_def float_of_nat_def float_sub_def fl_half)

lemma float_product_quarter: "float_mul (float_of_nat 4) (float_sub 1 (3 / 4)) = 1"
  using fl_nat [of 4] fl_nat [of 1] by (simp add: float_mul_def float_of_nat_def float_sub_def fl_quarter)

lemma float_sub_tenth:
  "float_sub 1 (3602879701896397 / 36028797018963968) = 8106479329266893 / 9007199254740992"
proof -
  have "fl (32425917317067571 / 36028797018963968)
      = of_int (round_half_even (32425917317067571 / 36028797018963968 / 2 powr (of_int (- 1) - 52)))
          * 2 powr (of_int (- 1) - 52)"
    by (rule fl_eval) (simp_all add: powr_minus_divide)
  also have "\<dots> = 8106479329266893 / 9007199254740992"
    by (simp add: powr_minus_divide round_half_even_def)
  finally show ?thesis by (simp add: float_sub_def)
qed

lemma float_product_tenth:
  "float_mul (float_of_nat 100) (float_sub 1 (3602879701896397 / 36028797018963968)) = 90"
proof -
  have "fl (810647932926689300 / 9007199254740992)
      = of_int (round_half_even (810647932926689300 / 9007199254740992 / 2 powr (of_int 6 - 52)))
          * 2 powr (of_int 6 - 52)"
    by (rule fl_eval) simp_all
  also have "\<dots> = 90"
    by (simp add: powr_minus_divide round_half_even_def)
  finally show ?thesis
    using fl_nat [of 100] by (simp add: float_mul_def float_of_nat_def float_sub_tenth)
qed

section \<open>C2: the invariants of the masking\<close>

text \<open>
  Claim C2, with the length the program computes. For every sequence of shape
  \<open>[N, L, D]\<close>, \<open>L\<close> below \<open>2 ^ 53\<close>, and every mask ratio in \<open>[0, 1)\<close>,
  \<^verbatim>\<open>random_masking\<close> returns, and what it computes satisfies: \<^verbatim>\<open>len_keep\<close> is the
  float product \<^verbatim>\<open>L * (1 - mask_ratio)\<close>, the difference rounded and the product
  rounded, cut to an integer, and lies between 0 and \<open>L\<close>; every row of
  \<^verbatim>\<open>ids_shuffle\<close> and of \<^verbatim>\<open>ids_restore\<close> is a permutation of \<open>[0, L)\<close>, with
  \<^verbatim>\<open>ids_restore[ids_shuffle[i]] == i\<close>; every entry of the mask is 0 or 1 and every
  row of it sums to \<open>L - len_keep\<close>; and for the mask ratio 0, \<^verbatim>\<open>len_keep\<close> is \<open>L\<close>
  and the mask is zero everywhere.
\<close>

theorem masking_invariants:
  fixes x :: "real tensor" and r :: real and draw :: "nat list \<Rightarrow> real"
  assumes sx: "shape x = [N, L, D]" and r0: "0 \<le> r" and r1: "r < 1" and L: "L < 2 ^ 53"
  shows "case masking draw x r of
           Inl e \<Rightarrow> False
         | Inr (len_keep, ids_shuffle, ids_restore, ids_keep, x_masked, msk) \<Rightarrow>
             random_masking draw x r = Inr (x_masked, msk, ids_restore)
           \<and> len_keep = \<lfloor>float_mul (float_of_nat L) (float_sub 1 r)\<rfloor>
           \<and> 0 \<le> len_keep \<and> len_keep \<le> int L
           \<and> shape ids_shuffle = [N, L] \<and> shape ids_restore = [N, L] \<and> shape msk = [N, L]
           \<and> (\<forall>n<N. bij_betw (\<lambda>i. tget ids_shuffle [n, i]) {..<L} {..<L}
                   \<and> bij_betw (\<lambda>i. tget ids_restore [n, i]) {..<L} {..<L}
                   \<and> (\<forall>i<L. tget ids_restore [n, tget ids_shuffle [n, i]] = i)
                   \<and> (\<forall>l<L. tget msk [n, l] = 0 \<or> tget msk [n, l] = 1)
                   \<and> (\<Sum>l<L. tget msk [n, l]) = real L - real_of_int len_keep)
           \<and> (r = 0 \<longrightarrow> len_keep = int L \<and> (\<forall>n<N. \<forall>l<L. tget msk [n, l] = 0))"
proof -
  let ?p = "float_mul (float_of_nat L) (float_sub 1 r)"
  define K where "K = py_int ?p"
  define K' where "K' = slice_bound L K"
  define S where "S = argsort (tabulate [N, L] draw) (Suc 0)"
  define R where "R = argsort S (Suc 0)"
  obtain ids_keep xm msk where
    m: "masking draw x r = Inr (K, S, R, ids_keep, xm, msk)"
    and smsk: "shape msk = [N, L]"
    and mval: "\<forall>n<N. \<forall>l<L. tget msk [n, l] = (if tget R [n, l] < K' then 0 else 1)"
    using masking_char [OF sx, of draw r] unfolding K_def K'_def S_def R_def by blast
  have nn: "0 \<le> ?p" and pL: "?p \<le> real L"
    using float_product_bounds [OF r0 r1 L] by simp_all
  have Kfl: "K = \<lfloor>?p\<rfloor>" unfolding K_def using nn by (rule py_int_nonneg)
  have KL: "K \<le> int L" unfolding Kfl using pL by (simp add: floor_le_iff)
  have K0: "0 \<le> K" unfolding Kfl using nn by simp
  have K'eq: "int K' = K" using KL K0 by (simp add: K'_def slice_bound_def)
  have K'L: "K' \<le> L" by (simp add: K'_def)
  have sT: "shape (tabulate [N, L] draw) = [N, L]" by simp
  have sS: "shape S = [N, L]" and sR: "shape R = [N, L]" by (simp_all add: S_def R_def)
  have rm: "random_masking draw x r = Inr (xm, msk, R)"
    by (simp add: random_masking_def m)
  have inv1: "tget S [n, tget R [n, i]] = i" and inv2: "tget R [n, tget S [n, i]] = i"
    if "n < N" "i < L" for n i
    using argsort_argsort [OF sT that] by (simp_all add: S_def R_def)
  have Sl: "tget S [n, i] < L" and Rl: "tget R [n, i] < L" if "n < N" "i < L" for n i
    using that argsort_tget_less [OF sT that] argsort_tget_less [OF sS that]
    by (simp_all add: S_def R_def)
  have per_row: "bij_betw (\<lambda>i. tget S [n, i]) {..<L} {..<L}
                   \<and> bij_betw (\<lambda>i. tget R [n, i]) {..<L} {..<L}
                   \<and> (\<forall>i<L. tget R [n, tget S [n, i]] = i)
                   \<and> (\<forall>l<L. tget msk [n, l] = 0 \<or> tget msk [n, l] = 1)
                   \<and> (\<Sum>l<L. tget msk [n, l]) = real L - real_of_int K"
    if n: "n < N" for n
  proof -
    have b1: "bij_betw (\<lambda>i. tget S [n, i]) {..<L} {..<L}"
      by (rule bij_betw_byWitness [where f' = "\<lambda>i. tget R [n, i]"])
         (auto simp: inv1 inv2 Sl Rl n)
    have b2: "bij_betw (\<lambda>i. tget R [n, i]) {..<L} {..<L}"
      by (rule bij_betw_byWitness [where f' = "\<lambda>i. tget S [n, i]"])
         (auto simp: inv1 inv2 Sl Rl n)
    have "(\<Sum>l<L. tget msk [n, l]) = (\<Sum>l<L. if row R n ! l < K' then 0 else 1)"
      using mval n sS by (intro sum.cong) (simp_all add: R_def row_argsort_nth)
    also have "\<dots> = (\<Sum>j<L. if j < K' then 0 else 1)"
      using argsort_row_perm [OF sS n]
      by (intro sum_perm_row [where g = "\<lambda>j. if j < K' then 0 else 1"]) (simp_all add: R_def)
    also have "\<dots> = real L - real K'" using K'L by (rule indicator_sum)
    also have "real K' = real_of_int K" using K'eq by (metis of_int_of_nat_eq)
    finally have "(\<Sum>l<L. tget msk [n, l]) = real L - real_of_int K" .
    then show ?thesis using b1 b2 inv2 n mval by simp
  qed
  have zero: "K = int L \<and> (\<forall>n<N. \<forall>l<L. tget msk [n, l] = 0)" if "r = 0"
  proof -
    have "K = int L" using that float_product_zero [OF L] by (simp add: Kfl)
    then have "K' = L" using K'eq by simp
    then show ?thesis using \<open>K = int L\<close> mval Rl by simp
  qed
  show ?thesis
    using rm Kfl K0 KL sS sR smsk per_row zero by (simp add: m)
qed

text \<open>The invariants at the example sequence, a quarter of the patches kept.\<close>

theorem masking_invariants_witness:
  "\<exists>len_keep ids_shuffle ids_restore ids_keep x_masked msk.
     masking draw0 seq0 (3 / 4) = Inr (len_keep, ids_shuffle, ids_restore, ids_keep, x_masked, msk)
     \<and> random_masking draw0 seq0 (3 / 4) = Inr (x_masked, msk, ids_restore)
     \<and> len_keep = 1
     \<and> tget ids_restore [1, tget ids_shuffle [1, 2]] = 2
     \<and> (\<Sum>l<4. tget msk [0, l]) = 3 \<and> (\<Sum>l<4. tget msk [1, l]) = 3"
proof -
  have s: "shape seq0 = [2, 4, 1]" by (simp add: seq0_def)
  show ?thesis
    using masking_invariants [OF s, of "3 / 4" draw0]
    by (auto simp: float_product_quarter split: sum.splits)
qed

lemma argsort_inverse:
  fixes S :: "nat tensor"
  assumes sS: "shape S = [N, L]" and n: "n < N" and st: "set (row S n) = {0..<L}" and i: "i < L"
  shows "tget S [n, tget (argsort S (Suc 0)) [n, i]] = i"
    and "tget (argsort S (Suc 0)) [n, tget S [n, i]] = i"
proof -
  let ?p = "row S n"
  let ?q = "sort_key (\<lambda>j. ?p ! j) [0..<L]"
  have len: "length ?p = L" using sS by (simp add: row_def)
  have inv: "\<forall>i<L. ?p ! (?q ! i) = i \<and> ?q ! (?p ! i) = i"
    using len st by (rule argsort_perm_inverse)
  have pj: "?p ! j = tget S [n, j]" if "j < L" for j
    using that sS by (simp add: row_def)
  have "sort_key (\<lambda>j. tget S [n, j]) [0..<L] = ?q"
    by (rule sort_key_cong_set) (simp add: pj)
  then have R: "tget (argsort S (Suc 0)) [n, l] = ?q ! l" if "l < L" for l
    using that sS n by (simp add: argsort_row)
  have ql: "?q ! l < L" if "l < L" for l
  proof -
    have "?q ! l \<in> set ?q" using that by (intro nth_mem) simp
    then show ?thesis by simp
  qed
  have pl: "?p ! l < L" if "l < L" for l
    using that len st by (metis atLeastLessThan_iff nth_mem)
  show "tget S [n, tget (argsort S (Suc 0)) [n, i]] = i"
    using inv [rule_format, OF i] R [OF i] pj [OF ql [OF i]] by simp
  show "tget (argsort S (Suc 0)) [n, tget S [n, i]] = i"
    using inv [rule_format, OF i] pj [OF i] R [OF pl [OF i]] by simp
qed

lemma row_of_bij:
  assumes "shape S = [N, L]" "bij_betw (\<lambda>k. tget S [n, k]) {..<L} {..<L}"
  shows "set (row S n) = {0..<L}"
proof -
  have "set (row S n) = (\<lambda>k. tget S [n, k]) ` {..<L}"
    using assms(1) by (simp add: row_def lessThan_atLeast0)
  then show ?thesis using assms(2) by (simp add: bij_betw_def lessThan_atLeast0)
qed

lemma cat2_Inr:
  assumes "ax < length (shape a)" "(shape b)[ax := 0] = (shape a)[ax := 0]"
    and "shape a ! ax = ka" "shape b ! ax = kb"
  shows "cat [a, b] ax = Inr (tabulate ((shape a)[ax := ka + kb])
           (\<lambda>idx. if idx ! ax < ka then tget a idx else tget b (idx[ax := idx ! ax - ka])))"
proof -
  have "tabulate ((shape a)[ax := ka + kb]) (cat_get ax [a, b])
      = tabulate ((shape a)[ax := ka + kb])
           (\<lambda>idx. if idx ! ax < ka then tget a idx else tget b (idx[ax := idx ! ax - ka]))"
  proof (rule tabulate_cong)
    fix idx assume v: "list_all2 (<) idx ((shape a)[ax := ka + kb])"
    then have "idx ! ax < ka + kb" and "ax < length idx"
      using assms(1) by (auto simp: list_all2_conv_all_nth)
    then show "cat_get ax [a, b] idx =
        (if idx ! ax < ka then tget a idx else tget b (idx[ax := idx ! ax - ka]))"
      using assms by auto
  qed
  then show ?thesis using assms by (simp add: cat_def)
qed

lemma restore_tokens_char:
  assumes sx: "shape x = [N, Suc K, Dd]" and KL: "K \<le> L"
    and sm: "shape (mask_token dec) = [1, 1, Dd]"
    and si: "shape ids = [N, L]" and wi: "wft ids" and ent: "\<forall>v \<in> set (data ids). v < L"
  shows "\<exists>x'. restore_tokens dec x ids = Inr x' \<and> wft x' \<and> shape x' = [N, L, Dd]
     \<and> (\<forall>n<N. \<forall>l<L. \<forall>d<Dd. tget x' [n, l, d] =
           (if tget ids [n, l] < K then tget x [n, Suc (tget ids [n, l]), d]
            else tget (mask_token dec) [0, 0, d]))"
proof -
  define mask_tokens where "mask_tokens = tabulate [N, L - K, Dd]
     (\<lambda>idx. tget (mask_token dec) (drop 0 (map2 (\<lambda>i d. i mod d) idx [1, 1, Dd])))"
  have smt: "shape mask_tokens = [N, L - K, Dd]" by (simp add: mask_tokens_def)
  have "nat (int L + 1 - int (Suc K)) = L - K" using KL by simp
  then have s1: "repeat (mask_token dec) [int N, int L + 1 - int (Suc K), 1] = Inr mask_tokens"
    using KL sm by (simp add: repeat_def mask_tokens_def Let_def)
  define x1 where "x1 = tabulate [N, K, Dd] (\<lambda>idx. tget x (idx[Suc 0 := idx ! Suc 0 + 1]))"
  have sx1: "shape x1 = [N, K, Dd]" by (simp add: x1_def)
  have s2: "slice 3 (Suc 0) 1 None x = Inr x1"
    using sx by (simp add: slice_def Let_def slice_bound_def x1_def)
  define xc where "xc = tabulate [N, L, Dd]
     (\<lambda>idx. if idx ! Suc 0 < K then tget x1 idx else tget mask_tokens (idx[Suc 0 := idx ! Suc 0 - K]))"
  have sxc: "shape xc = [N, L, Dd]" by (simp add: xc_def)
  have s3: "cat [x1, mask_tokens] (Suc 0) = Inr xc"
    using KL sx1 smt by (simp add: cat2_Inr xc_def)
  define index where "index = tabulate [N, L, Dd]
     (\<lambda>idx. tget (unsqueeze_last ids) (drop 0 (map2 (\<lambda>i d. i mod d) idx [N, L, 1])))"
  have sidx: "shape index = [N, L, Dd]" by (simp add: index_def)
  have s4: "repeat (unsqueeze_last ids) [1, 1, int Dd] = Inr index"
    using si by (simp add: repeat_def unsqueeze_last_def index_def Let_def)
  have i1: "tget index [n, l, d] = tget ids [n, l]" if "n < N" "l < L" "d < Dd" for n l d
  proof -
    have "tget (unsqueeze_last ids) [n, l, 0] = tget ids [n, l]"
      using si by (simp add: unsqueeze_last_def tget_def)
    then show ?thesis using that by (simp add: index_def)
  qed
  have il: "tget ids [n, l] < L" if "n < N" "l < L" for n l
  proof -
    have "tget ids [n, l] \<in> set (data ids)"
      using that si wi by (intro tget_in_data) simp_all
    then show ?thesis using ent by blast
  qed
  have ent': "\<forall>v \<in> set (data index). v < L"
    unfolding index_def
  proof (rule data_tabulate_all)
    fix idx assume "list_all2 (<) idx [N, L, Dd]"
    then obtain n l d where idx: "idx = [n, l, d]" and b: "n < N" "l < L" "d < Dd"
      by (auto simp: list_all2_Cons2)
    have "tget index [n, l, d] < L" using b by (simp add: i1 il)
    then show "tget (unsqueeze_last ids) (drop 0 (map2 (\<lambda>i d. i mod d) idx [N, L, 1])) < L"
      using idx b by (simp add: index_def)
  qed
  define x' where "x' = tabulate [N, L, Dd] (\<lambda>idx. tget xc (idx[Suc 0 := tget index idx]))"
  have s5: "gather xc (Suc 0) index = Inr x'"
    using sxc sidx ent' by (simp add: gather_Inr x'_def)
  have r: "restore_tokens dec x ids = Inr x'"
    using sx si s1 s2 s3 s4 s5 by (simp add: restore_tokens_def)
  have v: "tget x' [n, l, d] =
           (if tget ids [n, l] < K then tget x [n, Suc (tget ids [n, l]), d]
            else tget (mask_token dec) [0, 0, d])" if b: "n < N" "l < L" "d < Dd" for n l d
  proof -
    have "tget x' [n, l, d] = tget xc [n, tget ids [n, l], d]"
      using b by (simp add: x'_def i1)
    also have "\<dots> = (if tget ids [n, l] < K then tget x1 [n, tget ids [n, l], d]
                      else tget mask_tokens [n, tget ids [n, l] - K, d])"
      using b il [OF b(1,2)] by (simp add: xc_def)
    also have "\<dots> = (if tget ids [n, l] < K then tget x [n, Suc (tget ids [n, l]), d]
            else tget (mask_token dec) [0, 0, d])"
      using b il [OF b(1,2)] by (auto simp: x1_def mask_tokens_def)
    finally show ?thesis .
  qed
  show ?thesis using r v by (auto simp: x'_def)
qed

section \<open>C1: the restoration step of the decoder\<close>

text \<open>
  Claim C1. Let \<open>x\<close> be the embedded latent, of shape \<open>[N, K + 1, Dd]\<close> (the summary
  token and \<open>K\<close> visible tokens), and let \<^verbatim>\<open>ids_shuffle\<close> hold a permutation of
  \<open>[0, L)\<close> for every sample, the kept tokens being its first \<open>K\<close> positions, with
  \<^verbatim>\<open>ids_restore = argsort(ids_shuffle)\<close>. Then the restoration step of
  \<^verbatim>\<open>Decoder.forward\<close> returns, and in its result the \<open>k\<close>-th visible token stands at
  its original patch index \<^verbatim>\<open>ids_shuffle[k]\<close>, and the placeholder token at the original
  index of every removed position. Since every row of \<^verbatim>\<open>ids_shuffle\<close> is a bijection,
  every position is written once: none keeps a stale token, none gets a duplicate.
\<close>

theorem restore_places_tokens:
  assumes sx: "shape x = [N, Suc K, Dd]" and KL: "K \<le> L"
    and sm: "shape (mask_token dec) = [1, 1, Dd]"
    and ss: "shape ids_shuffle = [N, L]"
    and perm: "\<forall>n<N. bij_betw (\<lambda>k. tget ids_shuffle [n, k]) {..<L} {..<L}"
  shows "case restore_tokens dec x (argsort ids_shuffle 1) of
           Inl e \<Rightarrow> False
         | Inr x' \<Rightarrow>
             shape x' = [N, L, Dd]
           \<and> (\<forall>n<N. \<forall>d<Dd.
                 (\<forall>k<K. tget x' [n, tget ids_shuffle [n, k], d] = tget x [n, Suc k, d])
               \<and> (\<forall>k<L. K \<le> k \<longrightarrow>
                     tget x' [n, tget ids_shuffle [n, k], d] = tget (mask_token dec) [0, 0, d]))"
proof -
  let ?R = "argsort ids_shuffle (Suc 0)"
  have sR: "shape ?R = [N, L]" using ss by simp
  obtain x' where r: "restore_tokens dec x ?R = Inr x'" and sx': "shape x' = [N, L, Dd]"
    and v: "\<forall>n<N. \<forall>l<L. \<forall>d<Dd. tget x' [n, l, d] =
           (if tget ?R [n, l] < K then tget x [n, Suc (tget ?R [n, l]), d]
            else tget (mask_token dec) [0, 0, d])"
    using restore_tokens_char [OF sx KL sm sR argsort_wf argsort_entries [OF ss]] by blast
  have inv: "tget ?R [n, tget ids_shuffle [n, k]] = k" and lt: "tget ids_shuffle [n, k] < L"
    if "n < N" "k < L" for n k
  proof -
    have b: "bij_betw (\<lambda>k. tget ids_shuffle [n, k]) {..<L} {..<L}" using perm that by simp
    show "tget ?R [n, tget ids_shuffle [n, k]] = k"
      using argsort_inverse(2) [OF ss that(1) row_of_bij [OF ss b] that(2)] .
    show "tget ids_shuffle [n, k] < L" using b that(2) by (auto simp: bij_betw_def)
  qed
  have "tget x' [n, tget ids_shuffle [n, k], d] =
          (if k < K then tget x [n, Suc k, d] else tget (mask_token dec) [0, 0, d])"
    if "n < N" "k < L" "d < Dd" for n k d
    using that v inv lt by simp
  then show ?thesis using r sx' KL by simp
qed

lemma range6: "[0..<6] = [0, 1, 2, 3, 4, 5]"
  by (simp add: upt_rec)

lemma einsum_patchify:
  assumes "shape t = [a, b, c, d, e, f]"
  shows "einsum ''nchpwq'' ''nhwpqc'' t =
     Inr (tabulate [a, c, e, d, f, b]
            (\<lambda>idx. tget t [idx ! 0, idx ! 5, idx ! 1, idx ! 3, idx ! 2, idx ! 4]))"
  using assms by (auto simp: einsum_def permute_def index_of_def range6 eval_nat_numeral)

lemma einsum_unpatchify:
  assumes "shape t = [a, b, c, d, e, f]"
  shows "einsum ''nhwpqc'' ''nchpwq'' t =
     Inr (tabulate [a, f, b, d, c, e]
            (\<lambda>idx. tget t [idx ! 0, idx ! 2, idx ! 4, idx ! 3, idx ! 5, idx ! 1]))"
  using assms by (auto simp: einsum_def permute_def index_of_def range6 eval_nat_numeral)

lemma reshape_Inr:
  assumes "\<forall>z \<in> set spec. 0 \<le> z" "nat (prod_list spec) = length (data t)"
  shows "reshape t spec = Inr (Tensor (map nat spec) (data t))"
proof -
  have "filter (\<lambda>z. z \<noteq> - 1) spec = spec" "filter (\<lambda>z. z = - 1) spec = []" "- 1 \<notin> set spec"
    using assms(1) by (auto simp: filter_id_conv filter_empty_conv)
  then show ?thesis using assms by (auto simp: reshape_def Let_def)
qed

lemma py_int_real [simp]: "py_int (real n) = int n"
  by (simp add: py_int_def)

lemma py_int_sqrt_square: "nat (py_int (sqrt (real (h * h)))) = h"
  by (simp add: py_int_def real_sqrt_mult)

text \<open>The patches of an image batch: the image regrouped as
  \<open>[N, 3, h, p, h, p]\<close> with the dimensions rearranged to \<open>[N, h, h, p, p, 3]\<close>.\<close>

lemma patchify_char:
  assumes wx: "wft x" and sx: "shape x = [N, 3, h * p, h * p]" and p: "0 < p"
  defines "E \<equiv> tabulate [N, h, h, p, p, 3]
     (\<lambda>idx. tget (Tensor [N, 3, h, p, h, p] (data x))
              [idx ! 0, idx ! 5, idx ! 1, idx ! 3, idx ! 2, idx ! 4])"
  shows "patchify p x = Inr (Tensor [N, h * h, p\<^sup>2 * 3] (data E))"
proof -
  have len: "length (data x) = N * 3 * (h * p) * (h * p)"
    using wx sx by (simp add: wft_def)
  have r1: "reshape x [int N, 3, int h, int p, int h, int p]
              = Inr (Tensor [N, 3, h, p, h, p] (data x))"
    using len by (subst reshape_Inr) (simp_all add: nat_mult_distrib algebra_simps)
  have r2: "einsum ''nchpwq'' ''nhwpqc'' (Tensor [N, 3, h, p, h, p] (data x)) = Inr E"
    by (simp add: einsum_patchify E_def)
  have lenE: "length (data E) = N * h * h * p * p * 3"
    by (simp add: E_def tabulate_def)
  have r3: "reshape E [int N, int (h * h), int (p\<^sup>2 * 3)]
              = Inr (Tensor [N, h * h, p\<^sup>2 * 3] (data E))"
    using lenE by (subst reshape_Inr) (simp_all add: nat_mult_distrib power2_eq_square algebra_simps)
  show ?thesis
    using sx p r1 r2 r3 by (simp add: patchify_def)
qed

lemma unpatchify_patches:
  assumes wx: "wft x" and sx: "shape x = [N, 3, h * p, h * p]"
  defines "E \<equiv> tabulate [N, h, h, p, p, 3]
     (\<lambda>idx. tget (Tensor [N, 3, h, p, h, p] (data x))
              [idx ! 0, idx ! 5, idx ! 1, idx ! 3, idx ! 2, idx ! 4])"
  shows "unpatchify p (Tensor [N, h * h, p\<^sup>2 * 3] (data E)) = Inr x"
proof -
  let ?y = "Tensor [N, h * h, p\<^sup>2 * 3] (data E)"
  let ?X = "Tensor [N, 3, h, p, h, p] (data x)"
  have len: "length (data x) = N * 3 * (h * p) * (h * p)"
    using wx sx by (simp add: wft_def)
  have lenE: "length (data E) = N * h * h * p * p * 3"
    by (simp add: E_def tabulate_def)
  have EE: "Tensor [N, h, h, p, p, 3] (data E) = E"
    by (simp add: E_def tabulate_def)
  have r1: "reshape ?y [int N, int h, int h, int p, int p, 3] = Inr E"
    using lenE EE by (subst reshape_Inr) (simp_all add: nat_mult_distrib algebra_simps)
  define X' where "X' = tabulate [N, 3, h, p, h, p]
       (\<lambda>idx. tget E [idx ! 0, idx ! 2, idx ! 4, idx ! 3, idx ! 5, idx ! 1])"
  have sE: "shape E = [N, h, h, p, p, 3]" by (simp add: E_def)
  have r2: "einsum ''nhwpqc'' ''nchpwq'' E = Inr X'"
    unfolding X'_def by (rule einsum_unpatchify [OF sE])
  have "X' = ?X"
  proof (rule tensor_eqI)
    show "wft X'" by (simp add: X'_def)
    show "wft ?X" using len by (simp add: wft_def algebra_simps)
    show "shape X' = shape ?X" by (simp add: X'_def)
    fix idx assume "list_all2 (<) idx (shape X')"
    then obtain n c i1 i2 j1 j2 where idx: "idx = [n, c, i1, i2, j1, j2]"
      and b: "n < N" "c < 3" "i1 < h" "i2 < p" "j1 < h" "j2 < p"
      by (auto simp: X'_def list_all2_Cons2)
    show "tget X' idx = tget ?X idx"
      using b by (simp add: idx X'_def E_def)
  qed
  then have dX: "data X' = data x" by simp
  have lenX: "length (data X') = N * 3 * (h * p) * (h * p)" using dX len by simp
  have "Tensor [N, 3, h * p, h * p] (data X') = x"
    using dX sx by (simp add: tensor.expand)
  then have r3: "reshape X' [int N, 3, int (h * p), int (h * p)] = Inr x"
    using lenX by (subst reshape_Inr) (simp_all add: nat_mult_distrib algebra_simps)
  show ?thesis
    using r1 r2 r3 by (simp add: unpatchify_def py_int_sqrt_square Let_def)
qed

lemma patches_layout:
  assumes wx: "wft x" and sx: "shape x = [N, 3, h * p, h * p]"
    and b: "n < N" "c < 3" "i1 < h" "i2 < p" "j1 < h" "j2 < p"
  defines "E \<equiv> tabulate [N, h, h, p, p, 3]
     (\<lambda>idx. tget (Tensor [N, 3, h, p, h, p] (data x))
              [idx ! 0, idx ! 5, idx ! 1, idx ! 3, idx ! 2, idx ! 4])"
  shows "tget (Tensor [N, h * h, p\<^sup>2 * 3] (data E)) [n, i1 * h + j1, (i2 * p + j2) * 3 + c]
           = tget x [n, c, i1 * p + i2, j1 * p + j2]"
proof -
  have e1: "ravel [N, h * h, p\<^sup>2 * 3] [n, i1 * h + j1, (i2 * p + j2) * 3 + c]
              = ravel [N, h, h, p, p, 3] [n, i1, j1, i2, j2, c]"
    by (simp add: algebra_simps power2_eq_square)
  have e2: "ravel [N, 3, h, p, h, p] [n, c, i1, i2, j1, j2]
              = ravel [N, 3, h * p, h * p] [n, c, i1 * p + i2, j1 * p + j2]"
    by (simp add: algebra_simps)
  have sE: "shape E = [N, h, h, p, p, 3]" by (simp add: E_def)
  have "tget (Tensor [N, h * h, p\<^sup>2 * 3] (data E)) [n, i1 * h + j1, (i2 * p + j2) * 3 + c]
          = data E ! ravel [N, h * h, p\<^sup>2 * 3] [n, i1 * h + j1, (i2 * p + j2) * 3 + c]"
    by (simp only: tget_def tensor.sel)
  also have "\<dots> = tget E [n, i1, j1, i2, j2, c]"
    by (simp only: tget_def sE e1)
  also have "\<dots> = tget (Tensor [N, 3, h, p, h, p] (data x)) [n, c, i1, i2, j1, j2]"
    using b by (simp add: E_def)
  also have "\<dots> = tget x [n, c, i1 * p + i2, j1 * p + j2]"
    by (simp only: tget_def tensor.sel sx e2)
  finally show ?thesis .
qed

section \<open>C5: patchify and unpatchify\<close>

text \<open>
  Claim C5, for three channels. For every image batch of shape \<open>[N, 3, H, H]\<close> with
  \<open>H\<close> a multiple of the patch size, \<^verbatim>\<open>patchify\<close> returns, \<^verbatim>\<open>unpatchify\<close> of its
  result is the batch again, and the pixel \<open>(i2, j2)\<close> of the patch \<open>(i1, j1)\<close> in channel
  \<open>c\<close> stands at position \<open>(i2 * p + j2) * 3 + c\<close> of patch number \<open>i1 * h + j1\<close>:
  patches and pixels in row-major order, the channel last.
\<close>

theorem patchify_roundtrip:
  assumes wx: "wft x" and sx: "shape x = [N, 3, H, H]" and p: "0 < p" and dv: "p dvd H"
  shows "case patchify p x of
           Inl e \<Rightarrow> False
         | Inr y \<Rightarrow>
             shape y = [N, (H div p) * (H div p), p\<^sup>2 * 3]
           \<and> unpatchify p y = Inr x
           \<and> (\<forall>n<N. \<forall>c<3. \<forall>i1 < H div p. \<forall>j1 < H div p. \<forall>i2<p. \<forall>j2<p.
                 tget y [n, i1 * (H div p) + j1, (i2 * p + j2) * 3 + c]
                   = tget x [n, c, i1 * p + i2, j1 * p + j2])"
proof -
  define h where "h = H div p"
  have H: "H = h * p" using dv by (simp add: h_def)
  have sx': "shape x = [N, 3, h * p, h * p]" using sx H by simp
  show ?thesis
    unfolding h_def [symmetric]
    using patchify_char [OF wx sx' p] unpatchify_patches [OF wx sx']
      patches_layout [OF wx sx']
    by simp
qed

section \<open>Broadcasting\<close>

lemma bidx_valid: "list_all2 (<) idx s \<Longrightarrow> bidx s idx = idx"
proof -
  assume v: "list_all2 (<) idx s"
  have "map2 (\<lambda>i d. if d = 1 then 0 else i) idx s = idx"
    using v by (induction idx s rule: list_all2_induct) auto
  then show ?thesis using v by (simp add: bidx_def list_all2_lengthD)
qed

lemma broadcast_shapes_Nil [simp]: "broadcast_shapes [] [] = Some []"
  by (simp add: broadcast_shapes_def)

lemma broadcast_shapes_Cons:
  assumes "length s = length s'"
  shows "broadcast_shapes (a # s) (b # s') =
     (if a = b \<or> a = 1 \<or> b = 1
      then map_option (\<lambda>u. (if a = 1 then b else a) # u) (broadcast_shapes s s') else None)"
  using assms by (simp add: broadcast_shapes_def)

lemma broadcast_shapes_same [simp]: "broadcast_shapes s s = Some s"
  by (induction s) (simp_all add: broadcast_shapes_Cons)

lemma binop_same:
  assumes "shape a = s" "shape b = s"
  shows "binop f a b = Inr (tabulate s (\<lambda>idx. f (tget a idx) (tget b idx)))"
proof -
  have "tabulate s (\<lambda>idx. f (tget a (bidx s idx)) (tget b (bidx s idx)))
          = tabulate s (\<lambda>idx. f (tget a idx) (tget b idx))"
    by (rule tabulate_cong) (simp add: bidx_valid)
  then show ?thesis using assms by (simp add: binop_def)
qed

text \<open>A batch and one sample: the sample is repeated along the batch.\<close>

lemma binop_batch:
  assumes "shape a = n # s" "shape b = 1 # s"
  shows "binop f a b = Inr (tabulate (n # s) (\<lambda>idx. f (tget a idx) (tget b (0 # tl idx))))"
proof -
  have bs: "broadcast_shapes (n # s) (1 # s) = Some (n # s)"
    by (simp add: broadcast_shapes_Cons)
  have "tabulate (n # s) (\<lambda>idx. f (tget a (bidx (n # s) idx)) (tget b (bidx (1 # s) idx)))
          = tabulate (n # s) (\<lambda>idx. f (tget a idx) (tget b (0 # tl idx)))"
  proof (rule tabulate_cong)
    fix idx assume v: "list_all2 (<) idx (n # s)"
    then obtain i js where idx: "idx = i # js" and js: "list_all2 (<) js s"
      by (auto simp: list_all2_Cons2)
    have "map2 (\<lambda>i d. if d = 1 then 0 else i) js s = js"
      using js by (induction js s rule: list_all2_induct) auto
    then have "bidx (1 # s) idx = 0 # js"
      using js by (simp add: bidx_def idx list_all2_lengthD)
    then show "f (tget a (bidx (n # s) idx)) (tget b (bidx (1 # s) idx))
                 = f (tget a idx) (tget b (0 # tl idx))"
      using v by (simp add: bidx_valid idx)
  qed
  then show ?thesis using assms bs by (simp add: binop_def)
qed

section \<open>Layers\<close>

lemma layerD: "layer f s s' \<Longrightarrow> wft t \<Longrightarrow> shape t = s \<Longrightarrow> wft (f t) \<and> shape (f t) = s'"
  by (simp add: layer_def)

lemma fold_layers:
  assumes "\<forall>blk \<in> set bs. layer blk s s" "wft t" "shape t = s"
  shows "wft (fold (\<lambda>blk x. blk x) bs t) \<and> shape (fold (\<lambda>blk x. blk x) bs t) = s"
  using assms by (induction bs arbitrary: t) (auto simp: layer_def)

section \<open>The encoder\<close>

lemma mask_of_shape [simp]: "shape (mask_of R k) = shape R"
  by (simp add: mask_of_def)

lemma mask_of_wf [simp]: "wft (mask_of R k)"
  by (simp add: mask_of_def)

lemma restore_of_shape [simp]: "shape (restore_of draw N L) = [N, L]"
  by (simp add: restore_of_def)

lemma restore_of_wf [simp]: "wft (restore_of draw N L)"
  by (simp add: restore_of_def)

lemma restore_of_entries: "\<forall>v \<in> set (data (restore_of draw N L)). v < L"
  unfolding restore_of_def One_nat_def by (rule argsort_entries) simp

lemma kept_le [simp]: "kept L r \<le> L"
  by (simp add: kept_def)

lemma random_masking_char:
  fixes r :: real and draw :: "nat list \<Rightarrow> real"
  assumes sx: "shape x = [N, L, D]"
  shows "\<exists>xm. random_masking draw x r
            = Inr (xm, mask_of (restore_of draw N L) (kept L r), restore_of draw N L)
          \<and> wft xm \<and> shape xm = [N, kept L r, D]"
proof -
  let ?R = "restore_of draw N L"
  obtain ids_keep xm msk where
    m: "masking draw x r = Inr (py_int (float_mul (float_of_nat L) (float_sub 1 r)),
          argsort (tabulate [N, L] draw) (Suc 0), ?R, ids_keep, xm, msk)"
    and xm: "wft xm" "shape xm = [N, kept L r, D]" and wm: "wft msk" and sm: "shape msk = [N, L]"
    and mv: "\<forall>n<N. \<forall>l<L. tget msk [n, l] = (if tget ?R [n, l] < kept L r then 0 else 1)"
    using masking_char [OF sx, of draw r] unfolding kept_def restore_of_def One_nat_def by blast
  have "msk = mask_of ?R (kept L r)"
  proof (rule tensor_eqI)
    fix idx assume "list_all2 (<) idx (shape msk)"
    then obtain n l where idx: "idx = [n, l]" and b: "n < N" "l < L"
      using sm by (auto simp: list_all2_Cons2)
    show "tget msk idx = tget (mask_of ?R (kept L r)) idx"
      using b mv by (simp add: idx mask_of_def)
  qed (simp_all add: wm sm)
  then show ?thesis using m xm by (simp add: random_masking_def)
qed

lemma Encoder_forward_ok:
  assumes ok: "encoder_ok e N h D (kept (h * h) r)"
    and wx: "wft x" and sx: "shape x = [N, 3, h * patch_size e, h * patch_size e]"
  shows "\<exists>latent. Encoder_forward e draw x r =
             Inr (latent, mask_of (restore_of draw N (h * h)) (kept (h * h) r),
                  restore_of draw N (h * h))
           \<and> wft latent \<and> shape latent = [N, Suc (kept (h * h) r), D]"
proof -
  let ?L = "h * h" and ?K = "kept (h * h) r"
  have pe: "layer (patch_embed e) [N, 3, h * patch_size e, h * patch_size e] [N, ?L, D]"
    and wc: "wft (cls_token e)" and sc: "shape (cls_token e) = [1, 1, D]"
    and sp: "shape (pos_embed e) = [1, Suc ?L, D]"
    and bl: "\<forall>blk \<in> set (blocks e). layer blk [N, Suc ?K, D] [N, Suc ?K, D]"
    and nl: "layer (encoder_norm e) [N, Suc ?K, D] [N, Suc ?K, D]"
    using ok by (simp_all add: encoder_ok_def)
  have x1: "wft (patch_embed e x)" "shape (patch_embed e x) = [N, ?L, D]"
    using layerD [OF pe wx sx] by simp_all
  define pe1 where "pe1 = tabulate [1, ?L, D] (\<lambda>idx. tget (pos_embed e) (idx[Suc 0 := idx ! Suc 0 + 1]))"
  have s1: "slice 3 (Suc 0) 1 None (pos_embed e) = Inr pe1"
    using sp by (simp add: slice_def Let_def slice_bound_def pe1_def)
  define x2 where "x2 = tabulate [N, ?L, D]
      (\<lambda>idx. tget (patch_embed e x) idx + tget pe1 (0 # tl idx))"
  have s2: "binop (+) (patch_embed e x) pe1 = Inr x2"
    unfolding x2_def by (rule binop_batch) (simp_all add: x1 pe1_def)
  have sx2: "shape x2 = [N, ?L, D]" by (simp add: x2_def)
  obtain xm where s3: "random_masking draw x2 r =
       Inr (xm, mask_of (restore_of draw N ?L) ?K, restore_of draw N ?L)"
    and wxm: "wft xm" and sxm: "shape xm = [N, ?K, D]"
    using random_masking_char [OF sx2, of draw r] by blast
  define pe0 where "pe0 = tabulate [1, 1, D] (\<lambda>idx. tget (pos_embed e) (idx[Suc 0 := idx ! Suc 0 + 0]))"
  have s4: "slice 3 (Suc 0) 0 (Some 1) (pos_embed e) = Inr pe0"
    using sp by (simp add: slice_def Let_def slice_bound_def pe0_def)
  define cls where "cls = tabulate [1, 1, D] (\<lambda>idx. tget (cls_token e) idx + tget pe0 idx)"
  have s5: "binop (+) (cls_token e) pe0 = Inr cls"
    unfolding cls_def by (rule binop_same) (simp_all add: sc pe0_def)
  define cls_tokens where "cls_tokens = tabulate [N, 1, D] (\<lambda>idx. tget cls (bidx (shape cls) idx))"
  have scl: "shape cls = [1, 1, D]" by (simp add: cls_def)
  have s6: "expand cls [int N, - 1, - 1] = Inr cls_tokens"
    by (simp add: expand_def scl cls_tokens_def Let_def)
  define x3 where "x3 = tabulate [N, Suc ?K, D]
     (\<lambda>idx. if idx ! Suc 0 < 1 then tget cls_tokens idx
             else tget xm (idx[Suc 0 := idx ! Suc 0 - 1]))"
  have sct: "shape cls_tokens = [N, 1, D]" by (simp add: cls_tokens_def)
  have s7: "cat [cls_tokens, xm] (Suc 0) = Inr x3"
    using cat2_Inr [of "Suc 0" cls_tokens xm 1 ?K] sct sxm by (simp add: x3_def)
  have x3: "wft x3" "shape x3 = [N, Suc ?K, D]" by (simp_all add: x3_def)
  define x4 where "x4 = fold (\<lambda>blk x. blk x) (blocks e) x3"
  have x4: "wft x4" "shape x4 = [N, Suc ?K, D]"
    using fold_layers [OF bl x3] by (simp_all add: x4_def)
  have x5: "wft (encoder_norm e x4)" "shape (encoder_norm e x4) = [N, Suc ?K, D]"
    using layerD [OF nl x4] by simp_all
  have "Encoder_forward e draw x r =
      Inr (encoder_norm e x4, mask_of (restore_of draw N ?L) ?K, restore_of draw N ?L)"
    using s1 s2 s3 s4 s5 s6 s7 sxm by (simp add: Encoder_forward_def x4_def Let_def)
  then show ?thesis using x5 by blast
qed

lemma slice_first_token:
  assumes "shape t = [N, Suc K, D]"
  shows "slice 3 (Suc 0) 0 (Some 1) t = Inr (tabulate [N, 1, D] (tget t))"
  using assms by (simp add: slice_def Let_def slice_bound_def)

lemma slice_drop_first:
  assumes "shape t = [N, Suc K, D]"
  shows "slice 3 (Suc 0) 1 None t =
           Inr (tabulate [N, K, D] (\<lambda>idx. tget t (idx[Suc 0 := Suc (idx ! Suc 0)])))"
  using assms by (simp add: slice_def Let_def slice_bound_def)

lemma Decoder_forward_ok:
  assumes ok: "decoder_ok dec N L D K Dd P"
    and wl: "wft latent" and sl: "shape latent = [N, Suc K, D]" and KL: "K \<le> L"
    and si: "shape ids = [N, L]" and wi: "wft ids" and ent: "\<forall>v \<in> set (data ids). v < L"
  shows "\<exists>pred mid. Decoder_forward dec latent ids = Inr (pred, mid)
           \<and> wft pred \<and> shape pred = [N, L, P] \<and> wft mid \<and> shape mid = [N, Suc L, Dd]"
proof -
  have em: "layer (decoder_embed dec) [N, Suc K, D] [N, Suc K, Dd]"
    and sm: "shape (mask_token dec) = [1, 1, Dd]"
    and sp: "shape (decoder_pos_embed dec) = [1, Suc L, Dd]"
    and ne: "decoder_blocks dec \<noteq> []"
    and bl: "\<forall>blk \<in> set (decoder_blocks dec). layer blk [N, Suc L, Dd] [N, Suc L, Dd]"
    and nl: "layer (decoder_norm dec) [N, Suc L, Dd] [N, Suc L, Dd]"
    and pl: "layer (decoder_pred dec) [N, Suc L, Dd] [N, Suc L, P]"
    using ok by (simp_all add: decoder_ok_def)
  let ?x = "decoder_embed dec latent"
  have x: "wft ?x" "shape ?x = [N, Suc K, Dd]" using layerD [OF em wl sl] by simp_all
  obtain x' where s1: "restore_tokens dec ?x ids = Inr x'" and x': "wft x'" "shape x' = [N, L, Dd]"
    using restore_tokens_char [OF x(2) KL sm si wi ent] by blast
  define cls where "cls = tabulate [N, 1, Dd] (tget ?x)"
  have s2: "slice 3 (Suc 0) 0 (Some 1) ?x = Inr cls"
    unfolding cls_def using x(2) by (rule slice_first_token)
  have scl: "shape cls = [N, 1, Dd]" by (simp add: cls_def)
  define x2 where "x2 = tabulate [N, Suc L, Dd]
       (\<lambda>idx. if idx ! Suc 0 < 1 then tget cls idx else tget x' (idx[Suc 0 := idx ! Suc 0 - 1]))"
  have s3: "cat [cls, x'] (Suc 0) = Inr x2"
    using cat2_Inr [of "Suc 0" cls x' 1 L] scl x'(2) by (simp add: x2_def)
  have sx2: "shape x2 = [N, Suc L, Dd]" by (simp add: x2_def)
  define x3 where "x3 = tabulate [N, Suc L, Dd]
       (\<lambda>idx. tget x2 idx + tget (decoder_pos_embed dec) (0 # tl idx))"
  have s4: "binop (+) x2 (decoder_pos_embed dec) = Inr x3"
    unfolding x3_def using sx2 sp by (rule binop_batch)
  have x3: "wft x3" "shape x3 = [N, Suc L, Dd]" by (simp_all add: x3_def)
  obtain blk0 blks where bs: "decoder_blocks dec = blk0 # blks"
    using ne by (cases "decoder_blocks dec") auto
  have l0: "layer blk0 [N, Suc L, Dd] [N, Suc L, Dd]"
    and ls: "\<forall>blk \<in> set blks. layer blk [N, Suc L, Dd] [N, Suc L, Dd]"
    using bl bs by simp_all
  have mid: "wft (blk0 x3)" "shape (blk0 x3) = [N, Suc L, Dd]"
    using layerD [OF l0 x3] by simp_all
  define x4 where "x4 = fold (\<lambda>blk x. blk x) blks (blk0 x3)"
  have x4: "wft x4" "shape x4 = [N, Suc L, Dd]"
    using fold_layers [OF ls mid] by (simp_all add: x4_def)
  have x5: "wft (decoder_norm dec x4)" "shape (decoder_norm dec x4) = [N, Suc L, Dd]"
    using layerD [OF nl x4] by simp_all
  let ?x6 = "decoder_pred dec (decoder_norm dec x4)"
  have x6: "wft ?x6" "shape ?x6 = [N, Suc L, P]"
    using layerD [OF pl x5] by simp_all
  define pred where "pred = tabulate [N, L, P] (\<lambda>idx. tget ?x6 (idx[Suc 0 := Suc (idx ! Suc 0)]))"
  have s5: "slice 3 (Suc 0) 1 None ?x6 = Inr pred"
    unfolding pred_def using x6(2) by (rule slice_drop_first)
  have "Decoder_forward dec latent ids = Inr (pred, blk0 x3)"
    using s1 s2 s3 s4 s5 bs by (simp add: Decoder_forward_def x4_def Let_def)
  then show ?thesis using mid by (auto simp: pred_def)
qed

section \<open>The loss of every patch\<close>

lemma tmap_shape [simp]: "shape (tmap f t) = shape t"
  by (simp add: tmap_def)

lemma tmap_wf [simp]: "wft (tmap f t) = wft t"
  by (simp add: tmap_def wft_def)

lemma tget_tmap:
  "wft t \<Longrightarrow> list_all2 (<) idx (shape t) \<Longrightarrow> tget (tmap f t) idx = f (tget t idx)"
  by (simp add: tmap_def tget_def wft_def ravel_less)

lemma binop_ok:
  assumes "broadcast_shapes (shape a) (shape b) = Some s"
  shows "\<exists>c. binop f a b = Inr c \<and> wft c \<and> shape c = s"
  using assms by (simp add: binop_def)

lemma reduce_last3:
  assumes "shape t = [n, L, P]"
  shows "reduce_dim f (last_dim t) keep t =
     Inr (tabulate ([n, L] @ (if keep then [1] else []))
            (\<lambda>idx. f (map (\<lambda>j. tget t [idx ! 0, idx ! 1, j]) [0..<P])))"
  using assms unfolding reduce_dim_def last_dim_def
  by (auto intro!: tabulate_cong simp: list_all2_Cons2)

lemma loss_target_ok:
  assumes wx: "wft imgs" and sx: "shape imgs = [n, 3, h * patch_size (encoder m), h * patch_size (encoder m)]"
    and p: "0 < patch_size (encoder m)"
  shows "\<exists>target. loss_target m imgs = Inr target \<and> wft target
           \<and> shape target = [n, h * h, (patch_size (encoder m))\<^sup>2 * 3]"
proof -
  let ?p = "patch_size (encoder m)"
  obtain t where pt: "patchify ?p imgs = Inr t" and st: "shape t = [n, h * h, ?p\<^sup>2 * 3]"
    and wt: "wft t"
    using patchify_char [OF wx sx p] by (simp add: wft_def tabulate_def power2_eq_square)
  show ?thesis
  proof (cases "norm_pix_loss m")
    case False
    then show ?thesis using pt st wt by (simp add: loss_target_def)
  next
    case True
    define mean where "mean = tabulate [n, h * h, 1]
         (\<lambda>idx. mean_list (map (\<lambda>j. tget t [idx ! 0, idx ! 1, j]) [0..<?p\<^sup>2 * 3]))"
    define var where "var = tabulate [n, h * h, 1]
         (\<lambda>idx. var_list (map (\<lambda>j. tget t [idx ! 0, idx ! 1, j]) [0..<?p\<^sup>2 * 3]))"
    have s1: "reduce_dim mean_list (last_dim t) True t = Inr mean"
      using reduce_last3 [OF st, of mean_list True] by (simp add: mean_def)
    have s2: "reduce_dim var_list (last_dim t) True t = Inr var"
      using reduce_last3 [OF st, of var_list True] by (simp add: var_def)
    have b1: "broadcast_shapes (shape t) (shape mean) = Some [n, h * h, ?p\<^sup>2 * 3]"
      by (auto simp: st mean_def broadcast_shapes_Cons)
    obtain c where s3: "binop (-) t mean = Inr c" and sc: "shape c = [n, h * h, ?p\<^sup>2 * 3]"
      using binop_ok [OF b1] by blast
    have b2: "broadcast_shapes (shape c) (shape (tmap (\<lambda>v. sqrt (v + 1 / 1000000)) var))
                = Some [n, h * h, ?p\<^sup>2 * 3]"
      by (auto simp: sc var_def broadcast_shapes_Cons)
    obtain t' where s4: "binop (/) c (tmap (\<lambda>v. sqrt (v + 1 / 1000000)) var) = Inr t'"
      and t': "wft t'" "shape t' = [n, h * h, ?p\<^sup>2 * 3]"
      using binop_ok [OF b2] by blast
    show ?thesis using True pt s1 s2 s3 s4 t' by (simp add: loss_target_def)
  qed
qed

lemma forward_loss_ok:
  assumes tg: "loss_target m imgs = Inr target" and wt: "wft target" and st: "shape target = [n, L, P]"
    and wp: "wft pred" and sp: "shape pred = [n, L, P]"
  shows "\<exists>loss. forward_loss m imgs pred msk = Inr loss \<and> wft loss \<and> shape loss = [n, L]
           \<and> (\<forall>i<n. \<forall>l<L. tget loss [i, l] = patch_mse pred target i l)"
proof -
  define diff where "diff = tabulate [n, L, P] (\<lambda>idx. tget pred idx - tget target idx)"
  have s1: "binop (-) pred target = Inr diff"
    unfolding diff_def using sp st by (rule binop_same)
  let ?sq = "tmap (\<lambda>v. v\<^sup>2) diff"
  have ssq: "shape ?sq = [n, L, P]" by (simp add: diff_def)
  define loss where "loss = tabulate [n, L]
       (\<lambda>idx. mean_list (map (\<lambda>j. tget ?sq [idx ! 0, idx ! 1, j]) [0..<P]))"
  have s2: "reduce_dim mean_list (last_dim ?sq) False ?sq = Inr loss"
    using reduce_last3 [OF ssq, of mean_list False] by (simp add: loss_def)
  have fl: "forward_loss m imgs pred msk = Inr loss"
    using tg s1 s2 by (simp add: forward_loss_def Let_def)
  have v: "tget loss [i, l] = patch_mse pred target i l" if b: "i < n" "l < L" for i l
  proof -
    have e: "tget ?sq [i, l, j] = (tget pred [i, l, j] - tget target [i, l, j])\<^sup>2" if "j < P" for j
      using that b by (simp add: tget_tmap diff_def)
    have "tget loss [i, l] = mean_list (map (\<lambda>j. tget ?sq [i, l, j]) [0..<P])"
      using b by (simp add: loss_def)
    also have "map (\<lambda>j. tget ?sq [i, l, j]) [0..<P]
                 = map (\<lambda>j. (tget pred [i, l, j] - tget target [i, l, j])\<^sup>2) [0..<P]"
      using e by simp
    finally show ?thesis
      by (simp add: mean_list_def patch_mse_def sp sum_list_distinct_conv_sum_set
            atLeast0LessThan)
  qed
  show ?thesis using fl v by (auto simp: loss_def)
qed

section \<open>Sums over matrices\<close>

lemma sum_div_mod:
  fixes g :: "nat \<Rightarrow> nat \<Rightarrow> real"
  shows "(\<Sum>k<N * L. g (k div L) (k mod L)) = (\<Sum>n<N. \<Sum>l<L. g n l)"
proof (induction N)
  case 0
  then show ?case by simp
next
  case (Suc N)
  have "{..<Suc N * L} = {..<N * L} \<union> {N * L..<N * L + L}" by auto
  moreover have "{..<N * L} \<inter> {N * L..<N * L + L} = {}" by auto
  ultimately have "(\<Sum>k<Suc N * L. g (k div L) (k mod L))
      = (\<Sum>k<N * L. g (k div L) (k mod L)) + (\<Sum>k = N * L..<N * L + L. g (k div L) (k mod L))"
    by (simp add: sum.union_disjoint)
  also have "(\<Sum>k = N * L..<N * L + L. g (k div L) (k mod L)) = (\<Sum>l<L. g N l)"
  proof (rule sum.reindex_bij_witness [where i = "\<lambda>l. N * L + l" and j = "\<lambda>k. k - N * L"])
    fix a assume "a \<in> {N * L..<N * L + L}"
    then obtain r where a: "a = N * L + r" and r: "r < L"
      by (metis atLeastLessThan_iff le_Suc_ex nat_add_left_cancel_less)
    show "g N (a - N * L) = g (a div L) (a mod L)" using r by (simp add: a)
  qed auto
  finally show ?case using Suc.IH by simp
qed

lemma tsum_tabulate2: "tsum (tabulate [N, L] f) = (\<Sum>n<N. \<Sum>l<L. f [n, l])"
proof -
  have "tsum (tabulate [N, L] f) = (\<Sum>k<N * L. f [k div L, k mod L])"
    by (simp add: tsum_def tabulate_def sum_list_distinct_conv_sum_set atLeast0LessThan)
  then show ?thesis using sum_div_mod [where g = "\<lambda>n l. f [n, l]" and N = N and L = L] by simp
qed

lemma tsum_tget2:
  assumes "wft t" "shape t = [N, L]"
  shows "tsum t = (\<Sum>n<N. \<Sum>l<L. tget t [n, l])"
proof -
  have "tabulate [N, L] (tget t) = t" using tabulate_tget [OF assms(1)] assms(2) by simp
  then show ?thesis using tsum_tabulate2 [of N L "tget t"] by simp
qed

section \<open>The masked mean\<close>

lemma cat_get_rows:
  assumes "\<forall>u \<in> set ts. shape u ! 0 = bz" "n < length ts * bz"
  shows "cat_get 0 ts (n # js) = tget (ts ! (n div bz)) ((n mod bz) # js)"
  using assms
proof (induction ts arbitrary: n)
  case Nil
  then show ?case by simp
next
  case (Cons t ts)
  show ?case
  proof (cases "n < bz")
    case True
    then show ?thesis using Cons.prems by simp
  next
    case False
    then have bz: "0 < bz" "bz \<le> n" using Cons.prems by (cases bz, auto)
    have "n - bz < length ts * bz" using Cons.prems bz by simp
    then have "cat_get 0 ts ((n - bz) # js) = tget (ts ! ((n - bz) div bz)) (((n - bz) mod bz) # js)"
      using Cons.IH Cons.prems by simp
    moreover have "n div bz = Suc ((n - bz) div bz)" "(n - bz) mod bz = n mod bz"
      using bz by (simp_all add: le_div_geq le_mod_geq)
    ultimately show ?thesis using False Cons.prems by simp
  qed
qed

lemma cat_rows:
  assumes "\<forall>u \<in> set [u0, u1, u2]. shape u = [bz, L]"
  shows "cat [u0, u1, u2] 0 = Inr (tabulate [3 * bz, L] (cat_get 0 [u0, u1, u2]))"
proof -
  have e: "[bz + (bz + bz), L] = [3 * bz, L]" by simp
  show ?thesis using assms by (simp add: cat_def e)
qed

lemma masked_mean_rows:
  assumes us: "\<forall>u \<in> set [u0, u1, u2]. shape u = [bz, L]" and sm: "shape msk = [3 * bz, L]"
  shows "masked_mean [u0, u1, u2] msk =
     Inr (sdiv (\<Sum>n<3 * bz. \<Sum>l<L. tget ([u0, u1, u2] ! (n div bz)) [n mod bz, l] * tget msk [n, l])
               (tsum msk))"
proof -
  let ?us = "[u0, u1, u2]"
  define c where "c = tabulate [3 * bz, L] (cat_get 0 ?us)"
  have s1: "cat ?us 0 = Inr c"
    unfolding c_def using us by (rule cat_rows)
  define w where "w = tabulate [3 * bz, L] (\<lambda>idx. tget c idx * tget msk idx)"
  have s2: "binop (*) c msk = Inr w"
    unfolding w_def by (rule binop_same) (simp_all add: c_def sm)
  have cv: "tget c [n, l] = tget (?us ! (n div bz)) [n mod bz, l]" if "n < 3 * bz" "l < L" for n l
  proof -
    have "cat_get 0 ?us (n # [l]) = tget (?us ! (n div bz)) ((n mod bz) # [l])"
      using us that by (intro cat_get_rows) auto
    then show ?thesis using that by (simp add: c_def)
  qed
  have "tsum w = (\<Sum>n<3 * bz. \<Sum>l<L. tget c [n, l] * tget msk [n, l])"
    unfolding w_def by (rule tsum_tabulate2)
  also have "\<dots> = (\<Sum>n<3 * bz. \<Sum>l<L. tget (?us ! (n div bz)) [n mod bz, l] * tget msk [n, l])"
    by (intro sum.cong) (simp_all add: cv)
  finally show ?thesis using s1 s2 by (simp add: masked_mean_def)
qed

text \<open>Three slices of one row each do not fit a mask of another number of rows.\<close>

lemma masked_mean_mismatch:
  assumes us: "\<forall>u \<in> set [u0, u1, u2]. shape u = [bz, L]" and sm: "shape msk = [N, L]"
    and ne: "N \<noteq> 3 * bz" "N \<noteq> 1" "3 * bz \<noteq> 1"
  shows "masked_mean [u0, u1, u2] msk = Inl RuntimeError"
proof -
  let ?us = "[u0, u1, u2]"
  define c where "c = tabulate [3 * bz, L] (cat_get 0 ?us)"
  have s1: "cat ?us 0 = Inr c"
    unfolding c_def using us by (rule cat_rows)
  have "broadcast_shapes (shape c) (shape msk) = None"
    using ne by (simp add: c_def sm broadcast_shapes_Cons)
  then have "binop (*) c msk = Inl RuntimeError" by (simp add: binop_def)
  then show ?thesis using s1 by (simp add: masked_mean_def)
qed

text \<open>Three groups of no rows under a mask of one row: the product is empty.\<close>

lemma masked_mean_empty:
  assumes us: "\<forall>u \<in> set [u0, u1, u2]. shape u = [0, L]" and sm: "shape msk = [1, L]"
  shows "masked_mean [u0, u1, u2] msk = Inr (sdiv 0 (tsum msk))"
proof -
  define c where "c = tabulate [3 * 0, L] (cat_get 0 [u0, u1, u2])"
  have s1: "cat [u0, u1, u2] 0 = Inr c"
    unfolding c_def using us by (rule cat_rows)
  have bs: "broadcast_shapes (shape c) (shape msk) = Some [0, L]"
    by (simp add: c_def sm broadcast_shapes_Cons)
  define w where "w = tabulate [0, L] (\<lambda>idx. tget c (bidx (shape c) idx) * tget msk (bidx (shape msk) idx))"
  have s2: "binop (*) c msk = Inr w"
    using bs by (simp add: binop_def w_def)
  have "tsum w = 0" by (simp add: w_def tsum_def tabulate_def)
  then show ?thesis using s1 s2 by (simp add: masked_mean_def)
qed

lemma masked_mean_groups:
  assumes us: "\<forall>u \<in> set [u0, u1, u2]. shape u = [bz, L]" and sm: "shape msk = [N, L]"
    and c: "N = 3 * bz \<or> (bz = 0 \<and> N = 1)"
  shows "masked_mean [u0, u1, u2] msk =
     Inr (sdiv (\<Sum>n<3 * bz. \<Sum>l<L. tget ([u0, u1, u2] ! (n div bz)) [n mod bz, l] * tget msk [n, l])
               (tsum msk))"
  using c
proof
  assume "N = 3 * bz"
  then show ?thesis using us sm by (intro masked_mean_rows) simp_all
next
  assume "bz = 0 \<and> N = 1"
  then show ?thesis using masked_mean_empty [of u0 u1 u2 L msk] us sm by simp
qed

lemma slice_rows:
  assumes "shape t = N # s" "(i + 1) * bz \<le> N"
  shows "slice 1 0 (int (i * bz)) (Some (int ((i + 1) * bz))) t =
     Inr (tabulate (bz # s) (\<lambda>idx. tget t (idx[0 := idx ! 0 + i * bz])))"
proof -
  have a: "slice_bound N (int (i * bz)) = i * bz"
    and b: "slice_bound N (int ((i + 1) * bz)) = i * bz + bz"
    using assms(2) unfolding slice_bound_int by simp_all
  have "int bz + int i * int bz = int (i * bz + bz)" by simp
  then have b': "slice_bound N (int bz + int i * int bz) = i * bz + bz"
    using assms(2) by (simp only: slice_bound_int) simp
  have a': "slice_bound N (int i * int bz) = i * bz"
    using a by simp
  show ?thesis
    using assms(1) by (simp add: slice_def Let_def a' b')
qed

lemma recons_loss_rows:
  assumes ls: "\<forall>u \<in> set [l0, l1, l2]. shape u = [3 * bz, L]" and sm: "shape msk = [3 * bz, L]"
  shows "recons_loss [l0, l1, l2] bz msk =
     Inr (sdiv (\<Sum>n<3 * bz. \<Sum>l<L. tget ([l0, l1, l2] ! (n div bz)) [n, l] * tget msk [n, l])
               (tsum msk))"
proof -
  let ?ls = "[l0, l1, l2]"
  define u where "u i = tabulate [bz, L] (\<lambda>idx. tget (?ls ! i) (idx[0 := idx ! 0 + i * bz]))" for i
  have sl: "slice 1 0 (int (i * bz)) (Some (int ((i + 1) * bz))) (?ls ! i) = Inr (u i)" if "i < 3" for i
  proof -
    have "shape (?ls ! i) = 3 * bz # [L]" using ls that by (auto simp: less_Suc_eq numeral_3_eq_3)
    moreover have "(i + 1) * bz \<le> 3 * bz" using that by simp
    ultimately show ?thesis unfolding u_def by (rule slice_rows)
  qed
  have m: "mapE (\<lambda>i. slice 1 0 (int (i * bz)) (Some (int ((i + 1) * bz))) (?ls ! i)) [0..<3]
            = Inr [u 0, u 1, u 2]"
    using sl [of 0] sl [of 1] sl [of 2] by (simp add: range3)
  have mm: "masked_mean [u 0, u 1, u 2] msk =
     Inr (sdiv (\<Sum>n<3 * bz. \<Sum>l<L. tget ([u 0, u 1, u 2] ! (n div bz)) [n mod bz, l] * tget msk [n, l])
               (tsum msk))"
    by (rule masked_mean_rows) (simp_all add: u_def sm)
  have e: "tget ([u 0, u 1, u 2] ! (n div bz)) [n mod bz, l] = tget (?ls ! (n div bz)) [n, l]"
    if "n < 3 * bz" "l < L" for n l
  proof -
    have bz: "0 < bz" using that by (cases bz) auto
    have d: "n div bz < 3" using that bz by (simp add: less_mult_imp_div_less mult.commute)
    have "[u 0, u 1, u 2] ! (n div bz) = u (n div bz)"
      using d by (auto simp: less_Suc_eq numeral_3_eq_3 numeral_2_eq_2)
    moreover have "n mod bz < bz" using bz by simp
    ultimately show ?thesis using that by (simp add: u_def mult.commute)
  qed
  have "(\<Sum>n<3 * bz. \<Sum>l<L. tget ([u 0, u 1, u 2] ! (n div bz)) [n mod bz, l] * tget msk [n, l])
      = (\<Sum>n<3 * bz. \<Sum>l<L. tget (?ls ! (n div bz)) [n, l] * tget msk [n, l])"
  proof (intro sum.cong refl)
    fix n l assume "n \<in> {..<3 * bz}" "l \<in> {..<L}"
    then show "tget ([u 0, u 1, u 2] ! (n div bz)) [n mod bz, l] * tget msk [n, l]
                 = tget (?ls ! (n div bz)) [n, l] * tget msk [n, l]"
      by (simp only: e lessThan_iff)
  qed
  then show ?thesis using m mm by (simp add: recons_loss_def)
qed

lemma slice_domain_rows:
  assumes "shape t = N # s" "(j + 1) * bz \<le> N"
  shows "slice 1 0 (int (j * bz)) (Some (int ((j + 1) * bz))) t = Inr (domain_rows bz j t)"
  using slice_rows [OF assms] assms(1) by (simp add: domain_rows_def)

lemma domain_rows_shape [simp]: "shape (domain_rows bz j t) = bz # tl (shape t)"
  by (simp add: domain_rows_def)

lemma domain_rows_wf [simp]: "wft (domain_rows bz j t)"
  by (simp add: domain_rows_def)

lemma unpatchify_ok:
  assumes wy: "wft y" and sy: "shape y = [N, h * h, p\<^sup>2 * 3]"
  shows "\<exists>img. unpatchify p y = Inr img \<and> wft img \<and> shape img = [N, 3, h * p, h * p]"
proof -
  have len: "length (data y) = N * (h * h) * (p\<^sup>2 * 3)" using wy sy by (simp add: wft_def)
  let ?E = "Tensor [N, h, h, p, p, 3] (data y)"
  have r1: "reshape y [int N, int h, int h, int p, int p, 3] = Inr ?E"
    using len by (subst reshape_Inr) (simp_all add: nat_mult_distrib power2_eq_square algebra_simps)
  define X where "X = tabulate [N, 3, h, p, h, p]
       (\<lambda>idx. tget ?E [idx ! 0, idx ! 2, idx ! 4, idx ! 3, idx ! 5, idx ! 1])"
  have r2: "einsum ''nhwpqc'' ''nchpwq'' ?E = Inr X"
    unfolding X_def by (rule einsum_unpatchify) simp
  have lenX: "length (data X) = N * 3 * h * p * h * p" by (simp add: X_def tabulate_def)
  let ?img = "Tensor [N, 3, h * p, h * p] (data X)"
  have r3: "reshape X [int N, 3, int (h * p), int (h * p)] = Inr ?img"
    using lenX by (subst reshape_Inr) (simp_all add: nat_mult_distrib algebra_simps)
  have "unpatchify p y = Inr ?img"
    using sy r1 r2 r3 by (simp add: unpatchify_def Let_def)
  moreover have "wft ?img" using lenX by (simp add: wft_def algebra_simps)
  ultimately show ?thesis by simp
qed

lemma restore_of_facts:
  "shape (restore_of draw N L) = [N, L]" "wft (restore_of draw N L)"
  "\<forall>v \<in> set (data (restore_of draw N L)). v < L"
  using restore_of_entries by simp_all

lemma model_decodes:
  assumes ok: "model_ok m N h D K Dd" and i: "i < 3" and KL: "K \<le> h * h"
    and wl: "wft latent" and sl: "shape latent = [N, Suc K, D]"
  shows "\<exists>dec pred mid. multi_domain_decoders m i = Some dec
     \<and> Decoder_forward dec latent (restore_of draw N (h * h)) = Inr (pred, mid)
     \<and> wft pred \<and> shape pred = [N, h * h, (patch_size (encoder m))\<^sup>2 * 3]
     \<and> wft mid \<and> shape mid = [N, Suc (h * h), Dd]"
proof -
  obtain dec where d: "multi_domain_decoders m i = Some dec"
    and dok: "decoder_ok dec N (h * h) D K Dd ((patch_size (encoder m))\<^sup>2 * 3)"
    using ok i by (auto simp: model_ok_def)
  show ?thesis
    using Decoder_forward_ok [OF dok wl sl KL restore_of_facts] d by blast
qed

lemma target_ok:
  assumes ok: "model_ok m N h D K Dd"
    and wo: "wft ox" and so: "shape ox = [n, 3, h * patch_size (encoder m), h * patch_size (encoder m)]"
  shows "\<exists>target. loss_target m ox = Inr target \<and> wft target
           \<and> shape target = [n, h * h, (patch_size (encoder m))\<^sup>2 * 3]"
proof -
  have "0 < patch_size (encoder m)" using ok by (simp add: model_ok_def encoder_ok_def)
  then show ?thesis using loss_target_ok [OF wo so] by blast
qed

lemma first_pass_ok:
  fixes draw :: "nat \<Rightarrow> nat list \<Rightarrow> real"
  assumes ok: "model_ok m N h D (kept (h * h) r) Dd"
    and wx: "wft x" and sx: "shape x = [N, 3, h * patch_size (encoder m), h * patch_size (encoder m)]"
    and wo: "wft ox" and so: "shape ox = [N, 3, h * patch_size (encoder m), h * patch_size (encoder m)]"
  defines "R \<equiv> restore_of (draw 0) N (h * h)"
  defines "msk \<equiv> mask_of R (kept (h * h) r)"
  shows "\<exists>latent target p0 p1 p2 l0 l1 l2.
       Encoder_forward (encoder m) (draw 0) x r = Inr (latent, msk, R)
     \<and> loss_target m ox = Inr target
     \<and> first_pass m draw x ox r = Inr (msk, [l0, l1, l2], [p0, p1, p2])
     \<and> (\<forall>i<3. wft ([p0, p1, p2] ! i)
            \<and> shape ([p0, p1, p2] ! i) = [N, h * h, (patch_size (encoder m))\<^sup>2 * 3]
            \<and> wft ([l0, l1, l2] ! i) \<and> shape ([l0, l1, l2] ! i) = [N, h * h]
            \<and> (\<exists>dec mid. multi_domain_decoders m i = Some dec
                   \<and> Decoder_forward dec latent R = Inr ([p0, p1, p2] ! i, mid))
            \<and> forward_loss m ox ([p0, p1, p2] ! i) msk = Inr ([l0, l1, l2] ! i)
            \<and> (\<forall>n<N. \<forall>l < h * h.
                  tget ([l0, l1, l2] ! i) [n, l] = patch_mse ([p0, p1, p2] ! i) target n l))"
proof -
  let ?L = "h * h" and ?K = "kept (h * h) r" and ?P = "(patch_size (encoder m))\<^sup>2 * 3"
  have eok: "encoder_ok (encoder m) N h D ?K" using ok by (simp add: model_ok_def)
  obtain latent where e: "Encoder_forward (encoder m) (draw 0) x r = Inr (latent, msk, R)"
    and wl: "wft latent" and sl: "shape latent = [N, Suc ?K, D]"
    using Encoder_forward_ok [OF eok wx sx, of "draw 0"] unfolding msk_def R_def by blast
  obtain target where t: "loss_target m ox = Inr target" and wt: "wft target"
    and st: "shape target = [N, ?L, ?P]"
    using target_ok [OF ok wo so] by blast
  have step: "\<exists>pred mid dec ppl. multi_domain_decoders m i = Some dec
       \<and> Decoder_forward dec latent R = Inr (pred, mid)
       \<and> wft pred \<and> shape pred = [N, ?L, ?P]
       \<and> forward_loss m ox pred msk = Inr ppl \<and> wft ppl \<and> shape ppl = [N, ?L]
       \<and> (\<forall>n<N. \<forall>l < ?L. tget ppl [n, l] = patch_mse pred target n l)
       \<and> (\<forall>lrl pl. decode_step m latent R ox msk i (lrl, pl) = Inr (lrl @ [ppl], pl @ [pred]))"
    if i: "i < 3" for i
  proof -
    obtain dec pred mid where d: "multi_domain_decoders m i = Some dec"
      and df: "Decoder_forward dec latent R = Inr (pred, mid)"
      and wp: "wft pred" and sp: "shape pred = [N, ?L, ?P]"
      using model_decodes [OF ok i kept_le wl sl, of "draw 0"] unfolding R_def by blast
    obtain ppl where fl: "forward_loss m ox pred msk = Inr ppl" and wpl: "wft ppl"
      and spl: "shape ppl = [N, ?L]"
      and v: "\<forall>n<N. \<forall>l < ?L. tget ppl [n, l] = patch_mse pred target n l"
      using forward_loss_ok [OF t wt st wp sp, of msk] by blast
    have "decode_step m latent R ox msk i (lrl, pl) = Inr (lrl @ [ppl], pl @ [pred])" for lrl pl
      using d df fl by (simp add: decode_step_def lookup_def)
    then show ?thesis using d df wp sp fl wpl spl v by blast
  qed
  obtain p0 mid0 dec0 l0 where s0: "multi_domain_decoders m 0 = Some dec0"
      "Decoder_forward dec0 latent R = Inr (p0, mid0)" "wft p0" "shape p0 = [N, ?L, ?P]"
      "forward_loss m ox p0 msk = Inr l0" "wft l0" "shape l0 = [N, ?L]"
      "\<forall>n<N. \<forall>l < ?L. tget l0 [n, l] = patch_mse p0 target n l"
      "\<forall>lrl pl. decode_step m latent R ox msk 0 (lrl, pl) = Inr (lrl @ [l0], pl @ [p0])"
    using step [of 0] by auto
  obtain p1 mid1 dec1 l1 where s1: "multi_domain_decoders m 1 = Some dec1"
      "Decoder_forward dec1 latent R = Inr (p1, mid1)" "wft p1" "shape p1 = [N, ?L, ?P]"
      "forward_loss m ox p1 msk = Inr l1" "wft l1" "shape l1 = [N, ?L]"
      "\<forall>n<N. \<forall>l < ?L. tget l1 [n, l] = patch_mse p1 target n l"
      "\<forall>lrl pl. decode_step m latent R ox msk 1 (lrl, pl) = Inr (lrl @ [l1], pl @ [p1])"
    using step [of 1] by auto
  obtain p2 mid2 dec2 l2 where s2: "multi_domain_decoders m 2 = Some dec2"
      "Decoder_forward dec2 latent R = Inr (p2, mid2)" "wft p2" "shape p2 = [N, ?L, ?P]"
      "forward_loss m ox p2 msk = Inr l2" "wft l2" "shape l2 = [N, ?L]"
      "\<forall>n<N. \<forall>l < ?L. tget l2 [n, l] = patch_mse p2 target n l"
      "\<forall>lrl pl. decode_step m latent R ox msk 2 (lrl, pl) = Inr (lrl @ [l2], pl @ [p2])"
    using step [of 2] by auto
  have f: "foldE (decode_step m latent R ox msk) [0..<3] ([], []) = Inr ([l0, l1, l2], [p0, p1, p2])"
    using s0(9) s1(9) s2(9) by (simp add: range3)
  have fp: "first_pass m draw x ox r = Inr (msk, [l0, l1, l2], [p0, p1, p2])"
    using e f by (simp add: first_pass_def)
  have all: "wft ([p0, p1, p2] ! i)
            \<and> shape ([p0, p1, p2] ! i) = [N, ?L, ?P]
            \<and> wft ([l0, l1, l2] ! i) \<and> shape ([l0, l1, l2] ! i) = [N, ?L]
            \<and> (\<exists>dec mid. multi_domain_decoders m i = Some dec
                   \<and> Decoder_forward dec latent R = Inr ([p0, p1, p2] ! i, mid))
            \<and> forward_loss m ox ([p0, p1, p2] ! i) msk = Inr ([l0, l1, l2] ! i)
            \<and> (\<forall>n<N. \<forall>l < ?L.
                  tget ([l0, l1, l2] ! i) [n, l] = patch_mse ([p0, p1, p2] ! i) target n l)"
    if "i < 3" for i
  proof -
    have "i = 0 \<or> i = 1 \<or> i = 2" using that by linarith
    then consider "i = 0" | "i = 1" | "i = 2" by blast
    then show ?thesis
    proof cases
      case 1 then show ?thesis using s0 by simp
    next
      case 2 then show ?thesis using s1 by simp
    next
      case 3 then show ?thesis using s2 by simp
    qed
  qed
  show ?thesis using e t fp all by blast
qed

lemma replicate3: "replicate 3 x = [x, x, x]"
  by (simp add: numeral_3_eq_3)

lemma three_cases: "i < 3 \<Longrightarrow> (i = 0 \<Longrightarrow> P) \<Longrightarrow> (i = 1 \<Longrightarrow> P) \<Longrightarrow> (i = 2 \<Longrightarrow> P) \<Longrightarrow> P"
  for i :: nat
  by (cases i; cases "i - 1"; cases "i - 2") auto

text \<open>One pass of the inner loop of the cycle pass: decoder \<open>j\<close> on the latent of a
  re-encoded prediction.\<close>

lemma cycle_decode_step_ok:
  assumes ok: "model_ok m N h D K Dd" and j: "j < 3" and KL: "K \<le> h * h"
    and wl: "wft latent" and sl: "shape latent = [N, Suc K, D]"
    and wo: "wft ox"
    and so: "shape ox = [N, 3, h * patch_size (encoder m), h * patch_size (encoder m)]"
    and sm: "shape msk = [N, h * h]"
    and le3: "3 * bz \<le> N"
  shows "\<exists>dec pred mid loss.
       multi_domain_decoders m j = Some dec
     \<and> Decoder_forward dec latent (restore_of draw N (h * h)) = Inr (pred, mid)
     \<and> wft mid \<and> shape mid = [N, Suc (h * h), Dd]
     \<and> forward_loss m (domain_rows bz j ox) (domain_rows bz j pred) (domain_rows bz j msk) = Inr loss
     \<and> shape loss = [bz, h * h]
     \<and> (\<forall>lcl dmfl. cycle_decode_step m ox bz latent msk (restore_of draw N (h * h)) j
                        (lcl, dmfl)
            = Inr (lcl @ [loss], dmfl[j := dmfl ! j @ [mid]]))"
proof -
  let ?L = "h * h" and ?P = "(patch_size (encoder m))\<^sup>2 * 3" and ?p = "patch_size (encoder m)"
  let ?R = "restore_of draw N ?L"
  obtain dec pred mid where d: "multi_domain_decoders m j = Some dec"
    and df: "Decoder_forward dec latent ?R = Inr (pred, mid)"
    and wp: "wft pred" and sp: "shape pred = [N, ?L, ?P]"
    and wm: "wft mid" and smid: "shape mid = [N, Suc ?L, Dd]"
    using model_decodes [OF ok j KL wl sl, of draw] by blast
  have "(j + 1) * bz \<le> 3 * bz" using j by simp
  then have le: "(j + 1) * bz \<le> N" using le3 by (rule order_trans)
  have g1: "slice 1 0 (int (j * bz)) (Some (int ((j + 1) * bz))) ox = Inr (domain_rows bz j ox)"
    by (rule slice_domain_rows [OF so le])
  have g2: "slice 1 0 (int (j * bz)) (Some (int ((j + 1) * bz))) pred = Inr (domain_rows bz j pred)"
    by (rule slice_domain_rows [OF sp le])
  have g3: "slice 1 0 (int (j * bz)) (Some (int ((j + 1) * bz))) msk = Inr (domain_rows bz j msk)"
    by (rule slice_domain_rows [OF sm le])
  have sgo: "shape (domain_rows bz j ox) = [bz, 3, h * ?p, h * ?p]" using so by simp
  obtain target where t: "loss_target m (domain_rows bz j ox) = Inr target" and wt: "wft target"
    and st: "shape target = [bz, ?L, ?P]"
    using target_ok [OF ok domain_rows_wf sgo] by blast
  have sgp: "shape (domain_rows bz j pred) = [bz, ?L, ?P]" using sp by simp
  obtain loss where fl: "forward_loss m (domain_rows bz j ox) (domain_rows bz j pred) (domain_rows bz j msk) = Inr loss"
    and sl: "shape loss = [bz, ?L]"
    using forward_loss_ok [OF t wt st domain_rows_wf sgp, of "domain_rows bz j msk"] by blast
  have "cycle_decode_step m ox bz latent msk ?R j (lcl, dmfl)
            = Inr (lcl @ [loss], dmfl[j := dmfl ! j @ [mid]])" for lcl dmfl
    using d df g1 g2 g3 fl by (simp add: cycle_decode_step_def lookup_def)
  then show ?thesis using d df wm smid fl sl by blast
qed

text \<open>One pass of the outer loop: the prediction of decoder \<open>d\<close> is turned into
  images, encoded again with noise of its own, and decoded by the three decoders.\<close>

lemma cycle_step_ok:
  fixes draw :: "nat \<Rightarrow> nat list \<Rightarrow> real"
  assumes ok: "model_ok m N h D (kept (h * h) r) Dd"
    and wp: "wft (preds ! d)"
    and sp: "shape (preds ! d) = [N, h * h, (patch_size (encoder m))\<^sup>2 * 3]"
    and wo: "wft ox"
    and so: "shape ox = [N, 3, h * patch_size (encoder m), h * patch_size (encoder m)]"
    and le3: "3 * bz \<le> N" and c: "N = 3 * bz \<or> (bz = 0 \<and> N = 1)"
  defines "R \<equiv> restore_of (draw (Suc d)) N (h * h)"
  defines "msk \<equiv> mask_of R (kept (h * h) r)"
  shows "\<exists>img latent loss mid.
       unpatchify (patch_size (encoder m)) (preds ! d) = Inr img
     \<and> Encoder_forward (encoder m) (draw (Suc d)) img r = Inr (latent, msk, R)
     \<and> (\<forall>j<3. \<exists>dec pred.
            multi_domain_decoders m j = Some dec
          \<and> Decoder_forward dec latent R = Inr (pred, mid j)
          \<and> forward_loss m (domain_rows bz j ox) (domain_rows bz j pred) (domain_rows bz j msk) = Inr (loss j)
          \<and> wft (mid j) \<and> shape (mid j) = [N, Suc (h * h), Dd])
     \<and> (\<forall>acc a b c. cycle_step m draw ox r bz preds d (acc, [a, b, c])
            = Inr (sadd acc (masked_score loss msk bz (h * h)),
                   [a @ [mid 0], b @ [mid 1], c @ [mid 2]]))"
proof -
  let ?L = "h * h" and ?K = "kept (h * h) r" and ?p = "patch_size (encoder m)"
  have eok: "encoder_ok (encoder m) N h D ?K" using ok by (simp add: model_ok_def)
  obtain img where u: "unpatchify ?p (preds ! d) = Inr img" and wi: "wft img"
    and si: "shape img = [N, 3, h * ?p, h * ?p]"
    using unpatchify_ok [OF wp sp] by blast
  obtain latent where e: "Encoder_forward (encoder m) (draw (Suc d)) img r = Inr (latent, msk, R)"
    and wl: "wft latent" and sl: "shape latent = [N, Suc ?K, D]"
    using Encoder_forward_ok [OF eok wi si, of "draw (Suc d)"] unfolding msk_def R_def by blast
  have sm: "shape msk = [N, ?L]" by (simp add: msk_def R_def)
  have step: "\<exists>dec pred mid loss.
       multi_domain_decoders m j = Some dec
     \<and> Decoder_forward dec latent R = Inr (pred, mid)
     \<and> wft mid \<and> shape mid = [N, Suc ?L, Dd]
     \<and> forward_loss m (domain_rows bz j ox) (domain_rows bz j pred) (domain_rows bz j msk) = Inr loss
     \<and> shape loss = [bz, ?L]
     \<and> (\<forall>lcl dmfl. cycle_decode_step m ox bz latent msk R j (lcl, dmfl)
            = Inr (lcl @ [loss], dmfl[j := dmfl ! j @ [mid]]))" if "j < 3" for j
    using cycle_decode_step_ok [OF ok that kept_le wl sl wo so sm le3, of "draw (Suc d)"]
    unfolding R_def by blast
  obtain dec0 pred0 mid0 loss0 where s0: "multi_domain_decoders m 0 = Some dec0"
      "Decoder_forward dec0 latent R = Inr (pred0, mid0)"
      "wft mid0" "shape mid0 = [N, Suc ?L, Dd]"
      "forward_loss m (domain_rows bz 0 ox) (domain_rows bz 0 pred0) (domain_rows bz 0 msk) = Inr loss0"
      "shape loss0 = [bz, ?L]"
      "\<forall>lcl dmfl. cycle_decode_step m ox bz latent msk R 0 (lcl, dmfl)
            = Inr (lcl @ [loss0], dmfl[0 := dmfl ! 0 @ [mid0]])"
    using step [of 0] by auto
  obtain dec1 pred1 mid1 loss1 where s1: "multi_domain_decoders m 1 = Some dec1"
      "Decoder_forward dec1 latent R = Inr (pred1, mid1)"
      "wft mid1" "shape mid1 = [N, Suc ?L, Dd]"
      "forward_loss m (domain_rows bz 1 ox) (domain_rows bz 1 pred1) (domain_rows bz 1 msk) = Inr loss1"
      "shape loss1 = [bz, ?L]"
      "\<forall>lcl dmfl. cycle_decode_step m ox bz latent msk R 1 (lcl, dmfl)
            = Inr (lcl @ [loss1], dmfl[1 := dmfl ! 1 @ [mid1]])"
    using step [of 1] by auto
  obtain dec2 pred2 mid2 loss2 where s2: "multi_domain_decoders m 2 = Some dec2"
      "Decoder_forward dec2 latent R = Inr (pred2, mid2)"
      "wft mid2" "shape mid2 = [N, Suc ?L, Dd]"
      "forward_loss m (domain_rows bz 2 ox) (domain_rows bz 2 pred2) (domain_rows bz 2 msk) = Inr loss2"
      "shape loss2 = [bz, ?L]"
      "\<forall>lcl dmfl. cycle_decode_step m ox bz latent msk R 2 (lcl, dmfl)
            = Inr (lcl @ [loss2], dmfl[2 := dmfl ! 2 @ [mid2]])"
    using step [of 2] by auto
  define loss where "loss j = [loss0, loss1, loss2] ! j" for j
  define mid where "mid j = [mid0, mid1, mid2] ! j" for j
  have inner: "foldE (cycle_decode_step m ox bz latent msk R) [0..<3] ([], [a, b, c])
      = Inr ([loss0, loss1, loss2], [a @ [mid0], b @ [mid1], c @ [mid2]])" for a b c
    using s0(7) s1(7) s2(7) by (simp add: range3)
  have mm: "masked_mean [loss0, loss1, loss2] msk = Inr (masked_score loss msk bz ?L)"
    unfolding masked_score_def loss_def
    by (rule masked_mean_groups [where N = N]) (use c in \<open>simp_all add: s0 s1 s2 sm\<close>)
  have cs: "cycle_step m draw ox r bz preds d (acc, [a, b, c])
            = Inr (sadd acc (masked_score loss msk bz ?L),
                   [a @ [mid 0], b @ [mid 1], c @ [mid 2]])" for acc a b c
    using u e inner mm by (simp add: cycle_step_def detach_def mid_def)
  have per: "\<exists>dec pred.
            multi_domain_decoders m j = Some dec
          \<and> Decoder_forward dec latent R = Inr (pred, mid j)
          \<and> forward_loss m (domain_rows bz j ox) (domain_rows bz j pred) (domain_rows bz j msk) = Inr (loss j)
          \<and> wft (mid j) \<and> shape (mid j) = [N, Suc ?L, Dd]" if "j < 3" for j
    using that
  proof (rule three_cases)
    assume "j = 0" then show ?thesis using s0 by (simp add: loss_def mid_def)
  next
    assume "j = 1" then show ?thesis using s1 by (simp add: loss_def mid_def)
  next
    assume "j = 2" then show ?thesis using s2 by (simp add: loss_def mid_def)
  qed
  show ?thesis using u e per cs by blast
qed

lemma cycle_pass_ok:
  fixes draw :: "nat \<Rightarrow> nat list \<Rightarrow> real"
  assumes ok: "model_ok m N h D (kept (h * h) r) Dd"
    and ps: "\<forall>d<3. wft (preds ! d)
               \<and> shape (preds ! d) = [N, h * h, (patch_size (encoder m))\<^sup>2 * 3]"
    and wo: "wft ox"
    and so: "shape ox = [N, 3, h * patch_size (encoder m), h * patch_size (encoder m)]"
    and le3: "3 * bz \<le> N" and c: "N = 3 * bz \<or> (bz = 0 \<and> N = 1)"
  defines "R \<equiv> \<lambda>d. restore_of (draw (Suc d)) N (h * h)"
  defines "msk \<equiv> \<lambda>d. mask_of (R d) (kept (h * h) r)"
  shows "\<exists>img latent loss mid.
       (\<forall>d<3. unpatchify (patch_size (encoder m)) (preds ! d) = Inr (img d)
          \<and> Encoder_forward (encoder m) (draw (Suc d)) (img d) r = Inr (latent d, msk d, R d)
          \<and> (\<forall>j<3. \<exists>dec pred.
                 multi_domain_decoders m j = Some dec
               \<and> Decoder_forward dec (latent d) (R d) = Inr (pred, mid d j)
               \<and> forward_loss m (domain_rows bz j ox) (domain_rows bz j pred) (domain_rows bz j (msk d))
                    = Inr (loss d j)
               \<and> wft (mid d j) \<and> shape (mid d j) = [N, Suc (h * h), Dd]))
     \<and> cycle_pass m draw ox r bz preds
         = Inr (sadd (sadd (sadd (Finite 0) (masked_score (loss 0) (msk 0) bz (h * h)))
                           (masked_score (loss 1) (msk 1) bz (h * h)))
                     (masked_score (loss 2) (msk 2) bz (h * h)),
                [[mid 0 0, mid 1 0, mid 2 0], [mid 0 1, mid 1 1, mid 2 1],
                 [mid 0 2, mid 1 2, mid 2 2]])"
proof -
  let ?L = "h * h" and ?p = "patch_size (encoder m)"
  have step: "\<exists>img latent loss mid.
       unpatchify ?p (preds ! d) = Inr img
     \<and> Encoder_forward (encoder m) (draw (Suc d)) img r = Inr (latent, msk d, R d)
     \<and> (\<forall>j<3. \<exists>dec pred.
            multi_domain_decoders m j = Some dec
          \<and> Decoder_forward dec latent (R d) = Inr (pred, mid j)
          \<and> forward_loss m (domain_rows bz j ox) (domain_rows bz j pred) (domain_rows bz j (msk d)) = Inr (loss j)
          \<and> wft (mid j) \<and> shape (mid j) = [N, Suc ?L, Dd])
     \<and> (\<forall>acc a b c. cycle_step m draw ox r bz preds d (acc, [a, b, c])
            = Inr (sadd acc (masked_score loss (msk d) bz ?L),
                   [a @ [mid 0], b @ [mid 1], c @ [mid 2]]))" if "d < 3" for d
  proof -
    have "wft (preds ! d)" "shape (preds ! d) = [N, ?L, ?p\<^sup>2 * 3]"
      using ps that by simp_all
    then show ?thesis
      using cycle_step_ok [OF ok _ _ wo so le3 c, where preds = preds and d = d and draw = draw]
      unfolding msk_def R_def by blast
  qed
  obtain img0 latent0 loss0 mid0 where s0:
      "unpatchify ?p (preds ! 0) = Inr img0"
      "Encoder_forward (encoder m) (draw (Suc 0)) img0 r = Inr (latent0, msk 0, R 0)"
      "\<forall>j<3. \<exists>dec pred.
            multi_domain_decoders m j = Some dec
          \<and> Decoder_forward dec latent0 (R 0) = Inr (pred, mid0 j)
          \<and> forward_loss m (domain_rows bz j ox) (domain_rows bz j pred) (domain_rows bz j (msk 0)) = Inr (loss0 j)
          \<and> wft (mid0 j) \<and> shape (mid0 j) = [N, Suc ?L, Dd]"
      "\<forall>acc a b c. cycle_step m draw ox r bz preds 0 (acc, [a, b, c])
            = Inr (sadd acc (masked_score loss0 (msk 0) bz ?L),
                   [a @ [mid0 0], b @ [mid0 1], c @ [mid0 2]])"
    using step [of 0] by auto
  obtain img1 latent1 loss1 mid1 where s1:
      "unpatchify ?p (preds ! 1) = Inr img1"
      "Encoder_forward (encoder m) (draw (Suc 1)) img1 r = Inr (latent1, msk 1, R 1)"
      "\<forall>j<3. \<exists>dec pred.
            multi_domain_decoders m j = Some dec
          \<and> Decoder_forward dec latent1 (R 1) = Inr (pred, mid1 j)
          \<and> forward_loss m (domain_rows bz j ox) (domain_rows bz j pred) (domain_rows bz j (msk 1)) = Inr (loss1 j)
          \<and> wft (mid1 j) \<and> shape (mid1 j) = [N, Suc ?L, Dd]"
      "\<forall>acc a b c. cycle_step m draw ox r bz preds 1 (acc, [a, b, c])
            = Inr (sadd acc (masked_score loss1 (msk 1) bz ?L),
                   [a @ [mid1 0], b @ [mid1 1], c @ [mid1 2]])"
    using step [of 1] by auto
  obtain img2 latent2 loss2 mid2 where s2:
      "unpatchify ?p (preds ! 2) = Inr img2"
      "Encoder_forward (encoder m) (draw (Suc 2)) img2 r = Inr (latent2, msk 2, R 2)"
      "\<forall>j<3. \<exists>dec pred.
            multi_domain_decoders m j = Some dec
          \<and> Decoder_forward dec latent2 (R 2) = Inr (pred, mid2 j)
          \<and> forward_loss m (domain_rows bz j ox) (domain_rows bz j pred) (domain_rows bz j (msk 2)) = Inr (loss2 j)
          \<and> wft (mid2 j) \<and> shape (mid2 j) = [N, Suc ?L, Dd]"
      "\<forall>acc a b c. cycle_step m draw ox r bz preds 2 (acc, [a, b, c])
            = Inr (sadd acc (masked_score loss2 (msk 2) bz ?L),
                   [a @ [mid2 0], b @ [mid2 1], c @ [mid2 2]])"
    using step [of 2] by auto
  define img where "img d = [img0, img1, img2] ! d" for d
  define latent where "latent d = [latent0, latent1, latent2] ! d" for d
  define loss where "loss d = [loss0, loss1, loss2] ! d" for d
  define mid where "mid d = [mid0, mid1, mid2] ! d" for d
  have cp: "cycle_pass m draw ox r bz preds
         = Inr (sadd (sadd (sadd (Finite 0) (masked_score (loss 0) (msk 0) bz ?L))
                           (masked_score (loss 1) (msk 1) bz ?L))
                     (masked_score (loss 2) (msk 2) bz ?L),
                [[mid 0 0, mid 1 0, mid 2 0], [mid 0 1, mid 1 1, mid 2 1],
                 [mid 0 2, mid 1 2, mid 2 2]])"
    using s0(4) s1(4) s2(4)
    by (simp add: cycle_pass_def range3 replicate3 loss_def mid_def)
  have per: "unpatchify ?p (preds ! d) = Inr (img d)
          \<and> Encoder_forward (encoder m) (draw (Suc d)) (img d) r = Inr (latent d, msk d, R d)
          \<and> (\<forall>j<3. \<exists>dec pred.
                 multi_domain_decoders m j = Some dec
               \<and> Decoder_forward dec (latent d) (R d) = Inr (pred, mid d j)
               \<and> forward_loss m (domain_rows bz j ox) (domain_rows bz j pred) (domain_rows bz j (msk d))
                    = Inr (loss d j)
               \<and> wft (mid d j) \<and> shape (mid d j) = [N, Suc ?L, Dd])" if "d < 3" for d
    using that
  proof (rule three_cases)
    assume "d = 0" then show ?thesis
      using s0(1,2,3) by (simp add: img_def latent_def loss_def mid_def)
  next
    assume "d = 1" then show ?thesis
      using s1(1,2,3) by (simp add: img_def latent_def loss_def mid_def)
  next
    assume "d = 2" then show ?thesis
      using s2(1,2,3) by (simp add: img_def latent_def loss_def mid_def)
  qed
  show ?thesis using per cp by blast
qed

lemma range5: "[0..<5] = [0, 1, 2, 3, 4]"
  by (simp add: upt_rec)

lemma broadcast_shapes_lead: "broadcast_shapes s (a # s) = Some (a # s)"
proof -
  have "list_all2 (\<lambda>x y. x = y \<or> x = 1 \<or> y = 1) s s" by (simp add: list_all2_same)
  moreover have "map2 (\<lambda>x y. if x = 1 then y else x) s s = s"
    by (induction s) auto
  ultimately show ?thesis by (simp add: broadcast_shapes_def Let_def)
qed

lemma feature_bank_ok:
  assumes fs: "\<forall>f \<in> set [f0, f1, f2]. wft f \<and> shape f = [3 * bz, M, Dd]"
    and pos: "0 < M" "0 < Dd"
  shows "\<exists>B. feature_bank [f0, f1, f2] = Inr (Tensor [3, 3 * bz, M, Dd] (data B))
     \<and> B = tabulate [3, 3, bz, M, Dd]
                (\<lambda>idx. tget (Tensor [3, 3, bz, M, Dd] (data f0 @ data f1 @ data f2))
                          [idx ! 1, idx ! 0, idx ! 2, idx ! 3, idx ! 4])"
proof -
  let ?d = "data f0 @ data f1 @ data f2"
  have len: "length ?d = 3 * (3 * bz * M * Dd)" using fs by (simp add: wft_def)
  have s1: "stack [f0, f1, f2] = Inr (Tensor [3, 3 * bz, M, Dd] ?d)"
    using fs by (simp add: stack_def)
  have k: "nat (9 * (int M * int Dd)) = 9 * M * Dd"
    by (simp add: nat_mult_distrib)
  have ip: "\<not> int Dd * int M \<le> 0"
    using pos by (simp add: mult_le_0_iff)
  have kpos: "9 * M * Dd \<noteq> 0" using pos by simp
  have dv: "length ?d mod (9 * M * Dd) = 0" "length ?d div (9 * M * Dd) = bz"
  proof -
    have e: "length ?d = bz * (9 * M * Dd)" using len by simp
    show "length ?d mod (9 * M * Dd) = 0" by (simp only: e mod_mult_self2_is_0)
    show "length ?d div (9 * M * Dd) = bz" using kpos by (simp only: e) simp
  qed
  have s2: "reshape (Tensor [3, 3 * bz, M, Dd] ?d) [3, 3, - 1, int M, int Dd]
              = Inr (Tensor [3, 3, bz, M, Dd] ?d)"
    using kpos dv by (simp add: reshape_def Let_def k ip)
  define B where "B = tabulate [3, 3, bz, M, Dd]
                (\<lambda>idx. tget (Tensor [3, 3, bz, M, Dd] ?d)
                          [idx ! 1, idx ! 0, idx ! 2, idx ! 3, idx ! 4])"
  have s3: "permute (Tensor [3, 3, bz, M, Dd] ?d) [1, 0, 2, 3, 4] = Inr B"
    by (auto simp: permute_def index_of_def range5 B_def eval_nat_numeral intro!: tabulate_cong)
  have s4: "flatten B 1 2 = Inr (Tensor [3, 3 * bz, M, Dd] (data B))"
    by (simp add: flatten_def B_def eval_nat_numeral)
  have "feature_bank [f0, f1, f2] = Inr (Tensor [3, 3 * bz, M, Dd] (data B))"
    using s1 s2 s3 s4 by (simp add: feature_bank_def)
  then show ?thesis using B_def by blast
qed

lemma sum3: "(\<Sum>g<3. f g) = f 0 + f 1 + f (2::nat)"
  for f :: "nat \<Rightarrow> real"
  by (simp add: numeral_3_eq_3 numeral_2_eq_2)

lemma dot_nth:
  assumes "length xs = M" "length ys = M"
  shows "dot xs ys = (\<Sum>j\<leftarrow>[0..<M]. xs ! j * ys ! j)"
proof -
  have "map2 (*) xs ys = map (\<lambda>j. xs ! j * ys ! j) [0..<M]"
    using assms by (intro nth_equalityI) simp_all
  then show ?thesis by (simp add: dot_def)
qed

lemma bidx_lead: "list_all2 (<) js s \<Longrightarrow> bidx s (g # js) = js"
proof -
  assume v: "list_all2 (<) js s"
  have "bidx s (g # js) = bidx s js"
    using v by (simp add: bidx_def list_all2_lengthD)
  then show ?thesis using v by (simp add: bidx_valid)
qed

text \<open>One pass of the loop of the contrastive loss, from the feature bank of
  decoder \<open>i\<close>.\<close>

lemma contrastive_step_ok:
  assumes fb: "feature_bank (dmfl ! i) = Inr bank"
    and wb: "wft bank" and sb: "shape bank = 3 # S" and i: "i < 3"
  shows "contrastive_step dmfl i acc = Inr (acc + neg_log_softmax (similarity bank i) 3 i)"
proof -
  define M where "M = prod_list S"
  have len: "length (data bank) = 3 * M" using wb sb by (simp add: wft_def M_def)
  define row where "row = tabulate S (\<lambda>idx. tget bank (i # idx))"
  have s1: "select0 bank i = Inr row" using sb i by (simp add: select0_def row_def)
  define prods where
    "prods = tabulate (3 # S) (\<lambda>idx. tget row (bidx S idx) * tget bank (bidx (3 # S) idx))"
  have s2: "binop (*) row bank = Inr prods"
    by (simp add: binop_def row_def sb broadcast_shapes_lead prods_def)
  have lp: "length (data prods) = 3 * M" by (simp add: prods_def tabulate_def M_def)
  have dp: "data prods ! (g * M + j) = data bank ! (i * M + j) * data bank ! (g * M + j)"
    if g: "g < 3" and j: "j < M" for g j
  proof -
    have "g * M + j < g * M + M" using j by simp
    also have "\<dots> = Suc g * M" by simp
    also have "\<dots> \<le> 3 * M" using g by (intro mult_le_mono1) simp
    finally have k: "g * M + j < 3 * M" .
    have u: "unravel (3 # S) (g * M + j) = g # unravel S j"
      using j by (simp add: M_def)
    have v: "list_all2 (<) (unravel S j) S" using j unfolding M_def by (rule unravel_inb)
    have v3: "list_all2 (<) (g # unravel S j) (3 # S)" using v g by simp
    have r: "ravel S (unravel S j) = j" using j unfolding M_def by (rule ravel_unravel)
    have "data prods ! (g * M + j)
            = tget row (bidx S (unravel (3 # S) (g * M + j)))
              * tget bank (bidx (3 # S) (unravel (3 # S) (g * M + j)))"
      using k by (simp add: prods_def tabulate_def M_def del: unravel.simps)
    then have "data prods ! (g * M + j)
            = tget row (bidx S (g # unravel S j)) * tget bank (bidx (3 # S) (g # unravel S j))"
      by (simp only: u)
    also have "bidx S (g # unravel S j) = unravel S j" using v by (rule bidx_lead)
    also have "bidx (3 # S) (g # unravel S j) = g # unravel S j" using v3 by (rule bidx_valid)
    also have "tget row (unravel S j) = tget bank (i # unravel S j)"
      using v by (simp add: row_def)
    also have "tget bank (i # unravel S j) = data bank ! (i * M + j)"
      by (simp add: tget_def sb r M_def)
    also have "tget bank (g # unravel S j) = data bank ! (g * M + j)"
      by (simp add: tget_def sb r M_def)
    finally show ?thesis .
  qed
  have s3: "reshape prods [3, - 1] = Inr (Tensor [3, M] (data prods))"
    by (simp add: reshape_def Let_def lp)
  define sims where "sims = tabulate [3]
     (\<lambda>idx. sum_list (map (\<lambda>j. tget (Tensor [3, M] (data prods)) (take 1 idx @ [j] @ drop 1 idx))
                        [0..<M]))"
  have s4: "reduce_dim sum_list (Suc 0) False (Tensor [3, M] (data prods)) = Inr sims"
    by (simp add: reduce_dim_def sims_def)
  have ws: "wft sims" "shape sims = [3]" by (simp_all add: sims_def)
  have sv: "tget sims [g] = dot (bank_row bank i) (bank_row bank g)" if g: "g < 3" for g
  proof -
    have room: "a * M + M \<le> 3 * M" if "a < 3" for a
    proof -
      have "Suc a * M \<le> 3 * M" using that by (intro mult_le_mono1) simp
      then show ?thesis by simp
    qed
    have mn: "min (3 * M - a * M) M = M" if "a < 3" for a
      using room [OF that] by linarith
    have li: "length (bank_row bank i) = M" "length (bank_row bank g) = M"
      by (simp_all add: bank_row_def sb M_def [symmetric] len mn i g)
    have n: "bank_row bank i ! j = data bank ! (i * M + j)"
            "bank_row bank g ! j = data bank ! (g * M + j)" if "j < M" for j
      using that room [OF i] room [OF g]
      by (simp_all add: bank_row_def sb M_def [symmetric] len)
    have "tget sims [g] = (\<Sum>j\<leftarrow>[0..<M]. tget (Tensor [3, M] (data prods)) [g, j])"
      using g by (simp add: sims_def)
    also have "\<dots> = (\<Sum>j\<leftarrow>[0..<M]. data prods ! (g * M + j))"
      by (simp add: tget_def)
    also have "\<dots> = (\<Sum>j\<leftarrow>[0..<M]. bank_row bank i ! j * bank_row bank g ! j)"
      using g by (intro arg_cong [where f = sum_list] map_cong refl) (simp add: dp n)
    also have "\<dots> = dot (bank_row bank i) (bank_row bank g)"
      using li by (simp add: dot_nth)
    finally show ?thesis .
  qed
  define logits where "logits = tmap (\<lambda>v. v / tao) sims"
  have wl: "wft logits" "shape logits = [3]" using ws by (simp_all add: logits_def)
  have lv: "tget logits [g] = similarity bank i g" if "g < 3" for g
    using that ws by (simp add: logits_def tget_tmap sv similarity_def)
  define logp where "logp = tabulate [3]
     (\<lambda>idx. tget logits idx - ln (\<Sum>j\<leftarrow>[0..<3]. exp (tget logits (idx[0 := j]))))"
  have s5: "log_softmax0 logits = Inr logp"
    by (simp add: log_softmax0_def wl logp_def)
  define v where "v = tabulate [] (\<lambda>idx. tget logp (i # idx))"
  have s6: "select0 logp i = Inr v" using i by (simp add: select0_def logp_def v_def)
  have "tget v [] = tget logp [i]" by (simp add: v_def)
  also have "\<dots> = tget logits [i] - ln (\<Sum>j\<leftarrow>[0..<3]. exp (tget logits [j]))"
    using i by (simp add: logp_def)
  also have "\<dots> = - neg_log_softmax (similarity bank i) 3 i"
    using i by (simp add: neg_log_softmax_def sum3 range3 lv add.assoc)
  finally have e: "tget v [] = - neg_log_softmax (similarity bank i) 3 i" .
  show ?thesis
    unfolding contrastive_step_def
    by (simp add: fb s1 s2 s3 s4 s5 [unfolded logits_def] s6 e)
qed

lemma feature_bank_wf:
  assumes fs: "\<forall>f \<in> set [f0, f1, f2]. wft f \<and> shape f = [3 * bz, M, Dd]"
    and pos: "0 < M" "0 < Dd"
  shows "\<exists>bank. feature_bank [f0, f1, f2] = Inr bank \<and> wft bank
           \<and> shape bank = [3, 3 * bz, M, Dd]"
proof -
  obtain B where b: "feature_bank [f0, f1, f2] = Inr (Tensor [3, 3 * bz, M, Dd] (data B))"
    and B: "B = tabulate [3, 3, bz, M, Dd]
                (\<lambda>idx. tget (Tensor [3, 3, bz, M, Dd] (data f0 @ data f1 @ data f2))
                          [idx ! 1, idx ! 0, idx ! 2, idx ! 3, idx ! 4])"
    using feature_bank_ok [OF fs pos] by blast
  have "wft (Tensor [3, 3 * bz, M, Dd] (data B))"
    by (simp add: B wft_def tabulate_def)
  then show ?thesis using b by simp
qed

text \<open>The contrastive loss of the mid features \<open>mid d j\<close> (source domain \<open>d\<close>, decoder
  \<open>j\<close>), as the cycle pass collects them.\<close>

lemma contrastive_loss_ok:
  fixes mid :: "nat \<Rightarrow> nat \<Rightarrow> real tensor"
  assumes ms: "\<forall>d<3. \<forall>j<3. wft (mid d j) \<and> shape (mid d j) = [3 * bz, M, Dd]"
    and pos: "0 < M" "0 < Dd"
  shows "\<exists>bank. (\<forall>j<3. feature_bank [mid 0 j, mid 1 j, mid 2 j] = Inr (bank j)
                    \<and> wft (bank j) \<and> shape (bank j) = [3, 3 * bz, M, Dd])
     \<and> contrastive_loss [[mid 0 0, mid 1 0, mid 2 0], [mid 0 1, mid 1 1, mid 2 1],
                          [mid 0 2, mid 1 2, mid 2 2]]
         = Inr (\<Sum>j<3. neg_log_softmax (similarity (bank j) j) 3 j)"
proof -
  let ?ms = "[[mid 0 0, mid 1 0, mid 2 0], [mid 0 1, mid 1 1, mid 2 1],
              [mid 0 2, mid 1 2, mid 2 2]]"
  have "\<exists>b. feature_bank [mid 0 j, mid 1 j, mid 2 j] = Inr b \<and> wft b
           \<and> shape b = [3, 3 * bz, M, Dd]" if "j < 3" for j
    using ms that by (intro feature_bank_wf pos) simp
  then obtain bank where bk: "\<And>j. j < 3 \<Longrightarrow>
      feature_bank [mid 0 j, mid 1 j, mid 2 j] = Inr (bank j) \<and> wft (bank j)
      \<and> shape (bank j) = [3, 3 * bz, M, Dd]"
    by metis
  have nth: "?ms ! j = [mid 0 j, mid 1 j, mid 2 j]" if "j < 3" for j
    using that by (rule three_cases) simp_all
  have step: "contrastive_step ?ms j acc
                = Inr (acc + neg_log_softmax (similarity (bank j) j) 3 j)" if j: "j < 3" for j acc
  proof (rule contrastive_step_ok)
    show "feature_bank (?ms ! j) = Inr (bank j)" using bk [OF j] nth [OF j] by simp
    show "wft (bank j)" using bk [OF j] by simp
    show "shape (bank j) = 3 # [3 * bz, M, Dd]" using bk [OF j] by simp
    show "j < 3" by (rule j)
  qed
  have "contrastive_loss ?ms = Inr (\<Sum>j<3. neg_log_softmax (similarity (bank j) j) 3 j)"
    using step [of 0] step [of 1] step [of 2]
    by (simp add: contrastive_loss_def range3 sum3)
  then show ?thesis using bk by blast
qed

lemma group_size_ok: "shape l0 = N # s \<Longrightarrow> group_size (l0 # ls) = Inr (N div 3)"
proof -
  assume s: "shape l0 = N # s"
  have "real N / 3 = real N / real 3" by simp
  then have "\<lfloor>real N / 3\<rfloor> = int (N div 3)"
    by (simp only: floor_divide_of_nat_eq)
  then show ?thesis by (simp add: group_size_def s py_int_def)
qed

text \<open>The forward pass from its five stages.\<close>

lemma forward_parts:
  assumes "first_pass m draw x ox r = Inr (msk, ls, ps)"
    and "group_size ls = Inr bz"
    and "recons_loss ls bz msk = Inr lr"
    and "cycle_pass m draw ox r bz ps = Inr (lc, mids)"
    and "contrastive_loss mids = Inr lcon"
  shows "forward m draw x ox r = Inr (sadd (sadd lr (smul 2 lc)) (smul 2 (Finite lcon)))"
  using assms by (simp add: forward_def)

section \<open>The example model\<close>

lemma init_decoders:
  "multi_domain_decoders (CycleMAE_init n enc mk npl) i = (if i < n then Some (mk i) else None)"
proof -
  have "fold (\<lambda>i d. d(i \<mapsto> mk i)) [0..<n] Map.empty i = (if i < n then Some (mk i) else None)"
    by (induction n) auto
  then show ?thesis by (simp add: CycleMAE_init_def)
qed

lemma layer_id: "layer (\<lambda>t. t) s s"
  by (simp add: layer_def)

lemma layer_tmap: "layer (tmap f) s s"
  by (simp add: layer_def)

lemma wft_consts:
  "wft (Tensor [Suc 0, Suc 0, Suc 0] [v])" "wft (Tensor [Suc 0, 5, Suc 0] [v0, v1, v2, v3, v4])"
  by (simp_all add: wft_def)

lemma toy_encoder_ok: "encoder_ok toy_encoder N 2 1 K"
  by (simp add: encoder_ok_def toy_encoder_def layer_def wft_consts)

lemma toy_decoder_ok: "decoder_ok (toy_decoder i) N 4 1 K 1 3"
  by (simp add: decoder_ok_def toy_decoder_def layer_def wft_consts)

lemma toy_model_ok: "3 \<le> n \<Longrightarrow> model_ok (toy_model n) N 2 1 K 1"
  using toy_encoder_ok [of N K] toy_decoder_ok [of _ N K]
  by (simp add: model_ok_def toy_model_def init_decoders)
    (simp add: CycleMAE_init_def toy_encoder_def)

lemma toy_batch_ok:
  "wft (toy_batch N)"
  "shape (toy_batch N) = [N, 3, 2 * patch_size (encoder (toy_model n)),
                           2 * patch_size (encoder (toy_model n))]"
  by (simp_all add: toy_batch_def toy_model_def CycleMAE_init_def toy_encoder_def)

section \<open>The forward pass, stage by stage\<close>

text \<open>The forward pass of a model whose encoder and three decoders keep their
  contracts, on a batch of \<open>3 * bz\<close> images: every stage returns, and this is what
  it returns.\<close>

lemma forward_ok:
  fixes draw :: "nat \<Rightarrow> nat list \<Rightarrow> real"
  assumes ok: "model_ok m (3 * bz) h D (kept (h * h) r) Dd" and Dd: "0 < Dd"
    and wx: "wft x"
    and sx: "shape x = [3 * bz, 3, h * patch_size (encoder m), h * patch_size (encoder m)]"
    and wo: "wft ox"
    and so: "shape ox = [3 * bz, 3, h * patch_size (encoder m), h * patch_size (encoder m)]"
  defines "R0 \<equiv> restore_of (draw 0) (3 * bz) (h * h)"
  defines "msk0 \<equiv> mask_of R0 (kept (h * h) r)"
  defines "R \<equiv> \<lambda>d. restore_of (draw (Suc d)) (3 * bz) (h * h)"
  defines "msk \<equiv> \<lambda>d. mask_of (R d) (kept (h * h) r)"
  shows "\<exists>latent target preds losses img lat loss mid bank.
       Encoder_forward (encoder m) (draw 0) x r = Inr (latent, msk0, R0)
     \<and> loss_target m ox = Inr target
     \<and> first_pass m draw x ox r = Inr (msk0, losses, preds)
     \<and> (\<forall>d<3. (\<exists>dec mid0. multi_domain_decoders m d = Some dec
                   \<and> Decoder_forward dec latent R0 = Inr (preds ! d, mid0))
             \<and> forward_loss m ox (preds ! d) msk0 = Inr (losses ! d))
     \<and> group_size losses = Inr bz
     \<and> recons_loss losses bz msk0
         = Inr (sdiv (\<Sum>n<3 * bz. \<Sum>l<h * h.
                        patch_mse (preds ! (n div bz)) target n l * tget msk0 [n, l])
                     (tsum msk0))
     \<and> (\<forall>d<3. unpatchify (patch_size (encoder m)) (preds ! d) = Inr (img d)
          \<and> Encoder_forward (encoder m) (draw (Suc d)) (img d) r = Inr (lat d, msk d, R d)
          \<and> (\<forall>j<3. \<exists>dec pred.
                 multi_domain_decoders m j = Some dec
               \<and> Decoder_forward dec (lat d) (R d) = Inr (pred, mid d j)
               \<and> forward_loss m (domain_rows bz j ox) (domain_rows bz j pred)
                    (domain_rows bz j (msk d)) = Inr (loss d j)))
     \<and> cycle_pass m draw ox r bz preds
         = Inr (sadd (sadd (sadd (Finite 0) (masked_score (loss 0) (msk 0) bz (h * h)))
                           (masked_score (loss 1) (msk 1) bz (h * h)))
                     (masked_score (loss 2) (msk 2) bz (h * h)),
                [[mid 0 0, mid 1 0, mid 2 0], [mid 0 1, mid 1 1, mid 2 1],
                 [mid 0 2, mid 1 2, mid 2 2]])
     \<and> (\<forall>j<3. feature_bank [mid 0 j, mid 1 j, mid 2 j] = Inr (bank j)
             \<and> wft (bank j) \<and> shape (bank j) = [3, 3 * bz, Suc (h * h), Dd])
     \<and> contrastive_loss [[mid 0 0, mid 1 0, mid 2 0], [mid 0 1, mid 1 1, mid 2 1],
                          [mid 0 2, mid 1 2, mid 2 2]]
         = Inr (\<Sum>j<3. neg_log_softmax (similarity (bank j) j) 3 j)
     \<and> forward m draw x ox r
         = Inr (sadd (sadd (sdiv (\<Sum>n<3 * bz. \<Sum>l<h * h.
                                    patch_mse (preds ! (n div bz)) target n l * tget msk0 [n, l])
                                 (tsum msk0))
                           (smul 2 (sadd (sadd (sadd (Finite 0)
                                      (masked_score (loss 0) (msk 0) bz (h * h)))
                                      (masked_score (loss 1) (msk 1) bz (h * h)))
                                      (masked_score (loss 2) (msk 2) bz (h * h)))))
                     (smul 2 (Finite (\<Sum>j<3. neg_log_softmax (similarity (bank j) j) 3 j))))
     \<and> (\<forall>d<3. \<forall>j<3. wft (mid d j) \<and> shape (mid d j) = [3 * bz, Suc (h * h), Dd])"
proof -
  let ?L = "h * h" and ?P = "(patch_size (encoder m))\<^sup>2 * 3"
  obtain latent target p0 p1 p2 l0 l1 l2 where
    e: "Encoder_forward (encoder m) (draw 0) x r = Inr (latent, msk0, R0)"
    and t: "loss_target m ox = Inr target"
    and f: "first_pass m draw x ox r = Inr (msk0, [l0, l1, l2], [p0, p1, p2])"
    and pl: "\<forall>i<3. wft ([p0, p1, p2] ! i)
            \<and> shape ([p0, p1, p2] ! i) = [3 * bz, ?L, ?P]
            \<and> wft ([l0, l1, l2] ! i) \<and> shape ([l0, l1, l2] ! i) = [3 * bz, ?L]
            \<and> (\<exists>dec mid. multi_domain_decoders m i = Some dec
                   \<and> Decoder_forward dec latent R0 = Inr ([p0, p1, p2] ! i, mid))
            \<and> forward_loss m ox ([p0, p1, p2] ! i) msk0 = Inr ([l0, l1, l2] ! i)
            \<and> (\<forall>n<3 * bz. \<forall>l < ?L.
                  tget ([l0, l1, l2] ! i) [n, l] = patch_mse ([p0, p1, p2] ! i) target n l)"
    using first_pass_ok [OF ok wx sx wo so, of draw] unfolding R0_def msk0_def by blast
  let ?ps = "[p0, p1, p2]" and ?ls = "[l0, l1, l2]"
  have sl: "\<forall>u \<in> set ?ls. shape u = [3 * bz, ?L]"
    using pl [rule_format, of 0] pl [rule_format, of 1] pl [rule_format, of 2] by simp
  have g: "group_size ?ls = Inr bz"
    using group_size_ok [of l0 "3 * bz" "[?L]" "[l1, l2]"] sl by simp
  have sm: "shape msk0 = [3 * bz, ?L]" by (simp add: msk0_def R0_def)
  have rl: "recons_loss ?ls bz msk0
     = Inr (sdiv (\<Sum>n<3 * bz. \<Sum>l<?L. tget (?ls ! (n div bz)) [n, l] * tget msk0 [n, l])
                 (tsum msk0))"
    using sl sm by (rule recons_loss_rows)
  have "(\<Sum>n<3 * bz. \<Sum>l<?L. tget (?ls ! (n div bz)) [n, l] * tget msk0 [n, l])
      = (\<Sum>n<3 * bz. \<Sum>l<?L. patch_mse (?ps ! (n div bz)) target n l * tget msk0 [n, l])"
  proof (intro sum.cong refl)
    fix n l assume "n \<in> {..<3 * bz}" "l \<in> {..<?L}"
    then have n: "n < 3 * bz" and l: "l < ?L" by simp_all
    have bz: "0 < bz" using n by (cases bz) auto
    have "n div bz < 3" using n bz by (simp add: less_mult_imp_div_less mult.commute)
    then show "tget (?ls ! (n div bz)) [n, l] * tget msk0 [n, l]
             = patch_mse (?ps ! (n div bz)) target n l * tget msk0 [n, l]"
      using pl n l by simp
  qed
  then have rl': "recons_loss ?ls bz msk0
     = Inr (sdiv (\<Sum>n<3 * bz. \<Sum>l<?L. patch_mse (?ps ! (n div bz)) target n l * tget msk0 [n, l])
                 (tsum msk0))"
    using rl by simp
  have ps: "\<forall>d<3. wft (?ps ! d) \<and> shape (?ps ! d) = [3 * bz, ?L, ?P]"
    using pl by blast
  obtain img lat loss mid where
    cy: "\<forall>d<3. unpatchify (patch_size (encoder m)) (?ps ! d) = Inr (img d)
          \<and> Encoder_forward (encoder m) (draw (Suc d)) (img d) r = Inr (lat d, msk d, R d)
          \<and> (\<forall>j<3. \<exists>dec pred.
                 multi_domain_decoders m j = Some dec
               \<and> Decoder_forward dec (lat d) (R d) = Inr (pred, mid d j)
               \<and> forward_loss m (domain_rows bz j ox) (domain_rows bz j pred)
                    (domain_rows bz j (msk d)) = Inr (loss d j)
               \<and> wft (mid d j) \<and> shape (mid d j) = [3 * bz, Suc ?L, Dd])"
    and cp: "cycle_pass m draw ox r bz ?ps
         = Inr (sadd (sadd (sadd (Finite 0) (masked_score (loss 0) (msk 0) bz ?L))
                           (masked_score (loss 1) (msk 1) bz ?L))
                     (masked_score (loss 2) (msk 2) bz ?L),
                [[mid 0 0, mid 1 0, mid 2 0], [mid 0 1, mid 1 1, mid 2 1],
                 [mid 0 2, mid 1 2, mid 2 2]])"
    using cycle_pass_ok [OF ok ps wo so order_refl disjI1 [OF refl], where draw = draw]
    unfolding R_def msk_def by blast
  have ms: "\<forall>d<3. \<forall>j<3. wft (mid d j) \<and> shape (mid d j) = [3 * bz, Suc ?L, Dd]"
    using cy by blast
  obtain bank where
    bk: "\<forall>j<3. feature_bank [mid 0 j, mid 1 j, mid 2 j] = Inr (bank j)
                    \<and> wft (bank j) \<and> shape (bank j) = [3, 3 * bz, Suc ?L, Dd]"
    and cl: "contrastive_loss [[mid 0 0, mid 1 0, mid 2 0], [mid 0 1, mid 1 1, mid 2 1],
                               [mid 0 2, mid 1 2, mid 2 2]]
         = Inr (\<Sum>j<3. neg_log_softmax (similarity (bank j) j) 3 j)"
    using contrastive_loss_ok [OF ms _ Dd] by blast
  note fw = forward_parts [OF f g rl' cp cl]
  have cy': "\<forall>d<3. unpatchify (patch_size (encoder m)) (?ps ! d) = Inr (img d)
          \<and> Encoder_forward (encoder m) (draw (Suc d)) (img d) r = Inr (lat d, msk d, R d)
          \<and> (\<forall>j<3. \<exists>dec pred.
                 multi_domain_decoders m j = Some dec
               \<and> Decoder_forward dec (lat d) (R d) = Inr (pred, mid d j)
               \<and> forward_loss m (domain_rows bz j ox) (domain_rows bz j pred)
                    (domain_rows bz j (msk d)) = Inr (loss d j))"
    using cy by blast
  have dl: "\<forall>d<3. (\<exists>dec mid0. multi_domain_decoders m d = Some dec
                   \<and> Decoder_forward dec latent R0 = Inr (?ps ! d, mid0))
             \<and> forward_loss m ox (?ps ! d) msk0 = Inr (?ls ! d)"
    using pl by blast
  show ?thesis
    apply (rule exI [of _ latent], rule exI [of _ target], rule exI [of _ ?ps],
        rule exI [of _ ?ls], rule exI [of _ img], rule exI [of _ lat], rule exI [of _ loss],
        rule exI [of _ mid], rule exI [of _ bank])
    using e t f dl g rl' cy' cp bk cl fw ms by (intro conjI) assumption+
qed

text \<open>A batch whose size is no multiple of three: the three groups of
  \<open>N div 3\<close> rows do not fill the mask.\<close>

lemma recons_loss_mismatch:
  assumes ls: "\<forall>u \<in> set [l0, l1, l2]. shape u = [N, L]" and sm: "shape msk = [N, L]"
    and ne: "N mod 3 \<noteq> 0" "N \<noteq> 1"
  shows "recons_loss [l0, l1, l2] (N div 3) msk = Inl RuntimeError"
proof -
  let ?ls = "[l0, l1, l2]" and ?bz = "N div 3"
  define u where "u i = tabulate [?bz, L] (\<lambda>idx. tget (?ls ! i) (idx[0 := idx ! 0 + i * ?bz]))" for i
  have le: "3 * ?bz \<le> N" by simp
  have sl: "slice 1 0 (int (i * ?bz)) (Some (int ((i + 1) * ?bz))) (?ls ! i) = Inr (u i)"
    if "i < 3" for i
  proof -
    have "shape (?ls ! i) = N # [L]" using ls that by (auto simp: less_Suc_eq numeral_3_eq_3)
    moreover have "(i + 1) * ?bz \<le> 3 * ?bz" using that by (intro mult_le_mono1) simp
    then have "(i + 1) * ?bz \<le> N" using le by (rule order_trans)
    ultimately show ?thesis unfolding u_def by (rule slice_rows)
  qed
  have m: "mapE (\<lambda>i. slice 1 0 (int (i * ?bz)) (Some (int ((i + 1) * ?bz))) (?ls ! i)) [0..<3]
            = Inr [u 0, u 1, u 2]"
    using sl [of 0] sl [of 1] sl [of 2] by (simp add: range3)
  have n3: "N \<noteq> 3 * ?bz" using ne(1) by presburger
  have "masked_mean [u 0, u 1, u 2] msk = Inl RuntimeError"
    by (rule masked_mean_mismatch [where bz = ?bz and L = L and N = N])
      (use sm n3 ne(2) in \<open>simp_all add: u_def\<close>)
  then show ?thesis using m by (simp add: recons_loss_def)
qed

lemma forward_mismatch:
  fixes draw :: "nat \<Rightarrow> nat list \<Rightarrow> real"
  assumes ok: "model_ok m N h D (kept (h * h) r) Dd"
    and wx: "wft x" and sx: "shape x = [N, 3, h * patch_size (encoder m), h * patch_size (encoder m)]"
    and wo: "wft ox" and so: "shape ox = [N, 3, h * patch_size (encoder m), h * patch_size (encoder m)]"
    and ne: "N mod 3 \<noteq> 0" "N \<noteq> 1"
  shows "forward m draw x ox r = Inl RuntimeError"
proof -
  let ?L = "h * h"
  define msk where "msk = mask_of (restore_of (draw 0) N ?L) (kept ?L r)"
  obtain p0 p1 p2 l0 l1 l2 where
    f: "first_pass m draw x ox r = Inr (msk, [l0, l1, l2], [p0, p1, p2])"
    and pl: "\<forall>i<3. shape ([l0, l1, l2] ! i) = [N, ?L]"
    using first_pass_ok [OF ok wx sx wo so, of draw] unfolding msk_def by blast
  have sl: "\<forall>u \<in> set [l0, l1, l2]. shape u = [N, ?L]"
    using pl [rule_format, of 0] pl [rule_format, of 1] pl [rule_format, of 2] by simp
  have g: "group_size [l0, l1, l2] = Inr (N div 3)"
    using group_size_ok [of l0 N "[?L]" "[l1, l2]"] sl by simp
  have sm: "shape msk = [N, ?L]" by (simp add: msk_def)
  have "recons_loss [l0, l1, l2] (N div 3) msk = Inl RuntimeError"
    using sl sm ne by (rule recons_loss_mismatch)
  then show ?thesis using f g by (simp add: forward_def)
qed

section \<open>C4: the reconstruction loss\<close>

text \<open>
  Claim C4 with three domain groups. On a batch of \<open>3 * bz\<close> images the first pass decodes the latent with the
  decoders 0, 1 and 2, each over the whole batch, and scores every prediction against
  the original images. The group size the pass computes is \<open>bz\<close>, a third of the batch,
  and the reconstruction loss is the sum over all rows \<open>n\<close> and patches \<open>l\<close> of the
  mean squared error of patch \<open>l\<close> of row \<open>n\<close> in the prediction of decoder \<open>n div bz\<close>,
  times the mask entry \<open>[n, l]\<close>, divided by the sum of the mask: the diagonal of the
  grid of decoders and domain groups, in the order of the rows. It is the first term
  of the value \<open>forward\<close> returns. The number of groups is three whatever
  \<open>num_domains\<close> the model was built with.
\<close>

theorem reconstruction_loss_diagonal:
  fixes draw :: "nat \<Rightarrow> nat list \<Rightarrow> real"
  assumes ok: "model_ok m (3 * bz) h D (kept (h * h) r) Dd" and Dd: "0 < Dd"
    and wx: "wft x"
    and sx: "shape x = [3 * bz, 3, h * patch_size (encoder m), h * patch_size (encoder m)]"
    and wo: "wft ox"
    and so: "shape ox = [3 * bz, 3, h * patch_size (encoder m), h * patch_size (encoder m)]"
  defines "R0 \<equiv> restore_of (draw 0) (3 * bz) (h * h)"
  defines "msk0 \<equiv> mask_of R0 (kept (h * h) r)"
  shows "\<exists>latent target preds losses lc lcon.
       Encoder_forward (encoder m) (draw 0) x r = Inr (latent, msk0, R0)
     \<and> loss_target m ox = Inr target
     \<and> first_pass m draw x ox r = Inr (msk0, losses, preds)
     \<and> (\<forall>d<3. (\<exists>dec mid0. multi_domain_decoders m d = Some dec
                   \<and> Decoder_forward dec latent R0 = Inr (preds ! d, mid0))
             \<and> forward_loss m ox (preds ! d) msk0 = Inr (losses ! d))
     \<and> group_size losses = Inr bz
     \<and> recons_loss losses bz msk0
         = Inr (sdiv (\<Sum>n<3 * bz. \<Sum>l<h * h.
                        patch_mse (preds ! (n div bz)) target n l * tget msk0 [n, l])
                     (tsum msk0))
     \<and> forward m draw x ox r
         = Inr (sadd (sadd (sdiv (\<Sum>n<3 * bz. \<Sum>l<h * h.
                                    patch_mse (preds ! (n div bz)) target n l * tget msk0 [n, l])
                                 (tsum msk0))
                           (smul 2 lc))
                     (smul 2 (Finite lcon)))"
  using forward_ok [OF ok Dd wx sx wo so, of draw] unfolding R0_def msk0_def
  by (elim exE conjE) (intro exI conjI, assumption+)

theorem reconstruction_loss_diagonal_witness:
  "\<exists>preds losses target lc lcon.
       first_pass (toy_model 3) toy_draw (toy_batch 3) (toy_batch 3) (1 / 2)
         = Inr (mask_of (restore_of (toy_draw 0) 3 4) (kept 4 (1 / 2)), losses, preds)
     \<and> group_size losses = Inr 1
     \<and> forward (toy_model 3) toy_draw (toy_batch 3) (toy_batch 3) (1 / 2)
         = Inr (sadd (sadd (sdiv (\<Sum>n<3. \<Sum>l<4. patch_mse (preds ! n) target n l
                                    * tget (mask_of (restore_of (toy_draw 0) 3 4) (kept 4 (1 / 2))) [n, l])
                                 (tsum (mask_of (restore_of (toy_draw 0) 3 4) (kept 4 (1 / 2)))))
                           (smul 2 lc))
                     (smul 2 (Finite lcon)))"
proof -
  have a: "model_ok (toy_model 3) (3 * 1) 2 1 (kept (2 * 2) (1 / 2)) 1"
    by (rule toy_model_ok) simp
  have b: "shape (toy_batch 3) = [3 * 1, 3, 2 * patch_size (encoder (toy_model 3)),
                                  2 * patch_size (encoder (toy_model 3))]"
    using toy_batch_ok(2) [of 3 3] by simp
  have w: "wft (toy_batch 3)" by (rule toy_batch_ok)
  show ?thesis
    using reconstruction_loss_diagonal [OF a _ w b w b, of toy_draw]
    by simp blast
qed

text \<open>
  Claim C4 at a model built with four domains, on a batch of four images, one of
  each domain. The claim asks for groups of \<open>4 / 4 = 1\<close> row and the losses of four
  decoders. \<open>forward\<close> forms three groups of \<open>4 div 3 = 1\<close> row from three decoders;
  they do not match the mask of four rows, and the reconstruction loss fails.
\<close>

theorem reconstruction_four_domains:
  "num_domains (toy_model 4) = 4
   \<and> forward (toy_model 4) toy_draw (toy_batch 4) (toy_batch 4) (1 / 2) = Inl RuntimeError"
proof -
  have a: "model_ok (toy_model 4) 4 2 1 (kept (2 * 2) (1 / 2)) 1"
    by (rule toy_model_ok) simp
  have "forward (toy_model 4) toy_draw (toy_batch 4) (toy_batch 4) (1 / 2) = Inl RuntimeError"
    by (rule forward_mismatch [OF a toy_batch_ok toy_batch_ok]) simp_all
  then show ?thesis by (simp add: toy_model_def CycleMAE_init_def)
qed

section \<open>The sum of the mask\<close>

lemma tsum_mask_of:
  assumes KL: "K \<le> L"
  shows "tsum (mask_of (restore_of draw N L) K) = real N * (real L - real K)"
proof -
  let ?S = "argsort (tabulate [N, L] draw) (Suc 0)"
  let ?R = "argsort ?S (Suc 0)"
  have R: "restore_of draw N L = ?R" by (simp add: restore_of_def)
  have sS: "shape ?S = [N, L]" by simp
  have "tsum (mask_of ?R K) = (\<Sum>n<N. \<Sum>l<L. if tget ?R [n, l] < K then 0 else 1)"
    by (simp add: mask_of_def tsum_tabulate2)
  also have "\<dots> = (\<Sum>n<N. real L - real K)"
  proof (intro sum.cong refl)
    fix n assume "n \<in> {..<N}"
    then have n: "n < N" by simp
    have "(\<Sum>l<L. if tget ?R [n, l] < K then 0 else (1::real))
            = (\<Sum>l<L. if row ?R n ! l < K then 0 else 1)"
      using sS by (intro sum.cong) (simp_all add: row_argsort_nth)
    also have "\<dots> = (\<Sum>j<L. if j < K then 0 else 1)"
      using argsort_row_perm [OF sS n]
      by (intro sum_perm_row [where g = "\<lambda>j. if j < K then 0 else 1"]) simp_all
    also have "\<dots> = real L - real K" using KL by (rule indicator_sum)
    finally show "(\<Sum>l<L. if tget ?R [n, l] < K then 0 else (1::real)) = real L - real K" .
  qed
  also have "\<dots> = real N * (real L - real K)" by simp
  finally show ?thesis by (simp only: R)
qed

lemma mask_of_full:
  assumes "n < N" "l < L"
  shows "tget (mask_of (restore_of draw N L) L) [n, l] = 0"
proof -
  let ?S = "argsort (tabulate [N, L] draw) (Suc 0)"
  have "tget (argsort ?S (Suc 0)) [n, l] < L"
    using assms by (intro argsort_tget_less) simp_all
  then show ?thesis using assms by (simp add: mask_of_def restore_of_def)
qed

lemma kept_nonpos: "r \<le> 0 \<Longrightarrow> L < 2 ^ 53 \<Longrightarrow> kept L r = L"
proof -
  assume r: "r \<le> 0" and L: "L < 2 ^ 53"
  let ?p = "float_mul (float_of_nat L) (float_sub 1 r)"
  have a: "real L \<le> ?p" using r L by (rule float_product_nonpos)
  then have "int L \<le> \<lfloor>?p\<rfloor>" by (simp add: le_floor_iff)
  moreover have "0 \<le> ?p" using a by (rule order_trans [rotated]) simp
  ultimately show ?thesis by (simp add: kept_def py_int_def slice_bound_def)
qed

lemma masked_score_zero: "tsum msk = 0 \<Longrightarrow> masked_score ls msk bz L = NonFinite"
  by (simp add: masked_score_def sdiv_def)

lemma sadd_NonFinite [simp]: "sadd a NonFinite = NonFinite" "sadd NonFinite a = NonFinite"
  by (cases a; simp)+

text \<open>Where tokens are removed and the batch is not empty, the result is finite.\<close>

lemma forward_finite:
  fixes draw :: "nat \<Rightarrow> nat list \<Rightarrow> real"
  assumes ok: "model_ok m (3 * bz) h D (kept (h * h) r) Dd" and Dd: "0 < Dd"
    and wx: "wft x"
    and sx: "shape x = [3 * bz, 3, h * patch_size (encoder m), h * patch_size (encoder m)]"
    and wo: "wft ox"
    and so: "shape ox = [3 * bz, 3, h * patch_size (encoder m), h * patch_size (encoder m)]"
    and bz: "0 < bz" and k: "kept (h * h) r < h * h"
  shows "\<exists>v. forward m draw x ox r = Inr (Finite v)"
proof -
  let ?L = "h * h"
  have "real (kept ?L r) < real ?L" using k by (simp only: of_nat_less_iff)
  then have "real (3 * bz) * (real ?L - real (kept ?L r)) \<noteq> 0" using bz by simp
  then have z: "tsum (mask_of (restore_of dr (3 * bz) ?L) (kept ?L r)) \<noteq> 0" for dr
    using tsum_mask_of [of "kept ?L r" ?L dr "3 * bz"] by simp
  show ?thesis
    using forward_ok [OF ok Dd wx sx wo so, of draw]
    by (auto simp: z sdiv_def masked_score_def)
qed

lemma toy_kept: "kept 4 (1 / 2) = 2"
  by (simp add: kept_def float_product_half py_int_def slice_bound_def)

lemma toy_forward_facts:
  "model_ok (toy_model 3) (3 * 1) 2 1 (kept (2 * 2) r) 1"
  "wft (toy_batch 3)"
  "shape (toy_batch 3) = [3 * 1, 3, 2 * patch_size (encoder (toy_model 3)),
                          2 * patch_size (encoder (toy_model 3))]"
  using toy_model_ok [of 3 "3 * 1" "kept (2 * 2) r"] toy_batch_ok(1) [of 3]
    toy_batch_ok(2) [of 3 3]
  by simp_all

section \<open>C2: the length kept and the exact product\<close>

lemma kept_tenth: "kept 100 (3602879701896397 / 36028797018963968) = 90"
  by (simp add: kept_def float_product_tenth py_int_def slice_bound_def)

text \<open>
  Claim C2 at a sequence of a hundred patches and the mask ratio \<^verbatim>\<open>0.1\<close>, the float
  \<open>3602879701896397 / 2 ^ 55\<close>. The float difference \<^verbatim>\<open>1 - 0.1\<close> is rounded up to
  the float \<^verbatim>\<open>0.9\<close>, and a hundred times it is rounded to 90: the masking keeps 90
  patches and the row of the mask sums to 10. The exact product is below 90, its
  floor is 89, and \<open>L - floor (L * (1 - mask_ratio))\<close> is 11.
\<close>

theorem masking_float_product:
  "fst (projr (masking draw0 seq100 (3602879701896397 / 36028797018963968))) = 90
   \<and> tsum (fst (snd (projr (random_masking draw0 seq100
               (3602879701896397 / 36028797018963968))))) = 10
   \<and> real 100 - real_of_int \<lfloor>real 100 * (1 - 3602879701896397 / 36028797018963968)\<rfloor> = 11"
proof -
  let ?r = "3602879701896397 / 36028797018963968 :: real"
  have s: "shape seq100 = [1, 100, 1]" unfolding seq100_def by (rule shape_tabulate)
  have K: "py_int (float_mul (float_of_nat 100) (float_sub 1 ?r)) = 90"
    by (simp add: float_product_tenth py_int_def)
  obtain S R ids_keep xm msk where
    m: "masking draw0 seq100 ?r = Inr (90, S, R, ids_keep, xm, msk)"
    using masking_char [OF s, of draw0 ?r] unfolding K by (elim exE conjE) (rule that)
  have a: "fst (projr (masking draw0 seq100 ?r)) = 90"
    by (simp only: m sum.sel fst_conv)
  obtain xm' where
    rm: "random_masking draw0 seq100 ?r
       = Inr (xm', mask_of (restore_of draw0 1 100) (kept 100 ?r), restore_of draw0 1 100)"
    using random_masking_char [OF s, of draw0 ?r] by (elim exE conjE) (rule that)
  have "tsum (fst (snd (projr (random_masking draw0 seq100 ?r))))
       = tsum (mask_of (restore_of draw0 1 100) 90)"
    by (simp only: rm sum.sel fst_conv snd_conv kept_tenth)
  also have "\<dots> = real 1 * (real 100 - real 90)" by (rule tsum_mask_of) simp
  also have "\<dots> = 10" by simp
  finally have b: "tsum (fst (snd (projr (random_masking draw0 seq100 ?r)))) = 10" .
  have c: "real 100 - real_of_int \<lfloor>real 100 * (1 - ?r)\<rfloor> = 11" by simp
  show ?thesis using a b c by (intro conjI)
qed

section \<open>C10: the mask ratio 0\<close>

text \<open>
  Claim C10. When \<open>forward\<close> is called with a mask ratio of 0 (or below), every token
  is kept; the mask of the first pass and the masks of the cycle pass are zero
  everywhere and sum to 0. Neither division by the sum of the mask is guarded: the
  reconstruction loss and the cycle loss leave the finite numbers, and so does the
  value \<open>forward\<close> returns. Hence a finite result needs a mask ratio above 0.
\<close>

theorem zero_mask_ratio:
  fixes draw :: "nat \<Rightarrow> nat list \<Rightarrow> real"
  assumes ok: "model_ok m (3 * bz) h D (kept (h * h) r) Dd" and Dd: "0 < Dd"
    and wx: "wft x"
    and sx: "shape x = [3 * bz, 3, h * patch_size (encoder m), h * patch_size (encoder m)]"
    and wo: "wft ox"
    and so: "shape ox = [3 * bz, 3, h * patch_size (encoder m), h * patch_size (encoder m)]"
  shows "(r \<le> 0 \<longrightarrow>
           (\<exists>msk0 losses preds mids.
               first_pass m draw x ox r = Inr (msk0, losses, preds)
             \<and> (\<forall>n<3 * bz. \<forall>l<h * h. tget msk0 [n, l] = 0)
             \<and> tsum msk0 = 0
             \<and> recons_loss losses bz msk0 = Inr NonFinite
             \<and> cycle_pass m draw ox r bz preds = Inr (NonFinite, mids)
             \<and> forward m draw x ox r = Inr NonFinite))
       \<and> (\<forall>v. forward m draw x ox r = Inr (Finite v) \<longrightarrow> 0 < r)"
proof -
  let ?L = "h * h"
  have main: "\<exists>msk0 losses preds mids.
               first_pass m draw x ox r = Inr (msk0, losses, preds)
             \<and> (\<forall>n<3 * bz. \<forall>l<?L. tget msk0 [n, l] = 0)
             \<and> tsum msk0 = 0
             \<and> recons_loss losses bz msk0 = Inr NonFinite
             \<and> cycle_pass m draw ox r bz preds = Inr (NonFinite, mids)
             \<and> forward m draw x ox r = Inr NonFinite" if r: "r \<le> 0"
  proof -
    have "?L < 2 ^ 53" using ok by (simp add: model_ok_def encoder_ok_def)
    with r have k: "kept ?L r = ?L" by (rule kept_nonpos)
    have z: "tsum (mask_of (restore_of dr (3 * bz) ?L) (kept ?L r)) = 0" for dr
      using tsum_mask_of [of ?L ?L dr "3 * bz"] by (simp add: k)
    have e: "\<forall>n<3 * bz. \<forall>l<?L.
               tget (mask_of (restore_of (draw 0) (3 * bz) ?L) (kept ?L r)) [n, l] = 0"
      by (simp add: k mask_of_full)
    show ?thesis
      using forward_ok [OF ok Dd wx sx wo so, of draw] e
      by (auto simp: z sdiv_def masked_score_zero)
  qed
  have "0 < r" if "forward m draw x ox r = Inr (Finite v)" for v
  proof (rule ccontr)
    assume "\<not> 0 < r"
    then have "r \<le> 0" by simp
    then show False using main that by auto
  qed
  then show ?thesis using main by blast
qed

theorem zero_mask_ratio_witness:
  "forward (toy_model 3) toy_draw (toy_batch 3) (toy_batch 3) 0 = Inr NonFinite
   \<and> (\<exists>v. forward (toy_model 3) toy_draw (toy_batch 3) (toy_batch 3) (1 / 2) = Inr (Finite v)
          \<and> (0::real) < 1 / 2)"
proof -
  note f = toy_forward_facts
  note z = toy_forward_facts(1) [of 0] and p = toy_forward_facts(1) [of "1 / 2"]
  have "\<exists>v. forward (toy_model 3) toy_draw (toy_batch 3) (toy_batch 3) (1 / 2) = Inr (Finite v)"
    by (rule forward_finite [OF p _ f(2) f(3) f(2) f(3)]) (simp_all add: toy_kept)
  then show ?thesis
    using zero_mask_ratio [OF z _ f(2) f(3) f(2) f(3), of toy_draw]
          zero_mask_ratio [OF p _ f(2) f(3) f(2) f(3), of toy_draw]
    by auto
qed

section \<open>C9: the composition of the loss\<close>

text \<open>
  Claim C9. Whenever \<open>forward\<close> returns, for any model and any input, the value is the
  reconstruction loss plus twice the cycle loss plus twice the contrastive loss, the
  three terms being those its stages computed. The multipliers 1, 2 and 2 are
  constants of the code: no argument of \<open>forward\<close> and no field of the model enters
  them. Where the reconstruction loss and the cycle loss are finite, the value is
  the finite number \<open>a + 2 * b + 2 * c\<close>.
\<close>

theorem loss_composition:
  assumes "forward m draw x ox r = Inr v"
  shows "\<exists>msk losses preds bz loss_recons loss_cycle mids loss_contrastive.
       first_pass m draw x ox r = Inr (msk, losses, preds)
     \<and> group_size losses = Inr bz
     \<and> recons_loss losses bz msk = Inr loss_recons
     \<and> cycle_pass m draw ox r bz preds = Inr (loss_cycle, mids)
     \<and> contrastive_loss mids = Inr loss_contrastive
     \<and> v = sadd (sadd loss_recons (smul 2 loss_cycle)) (smul 2 (Finite loss_contrastive))
     \<and> (\<forall>a b. loss_recons = Finite a \<and> loss_cycle = Finite b
            \<longrightarrow> v = Finite (a + 2 * b + 2 * loss_contrastive))"
  using assms unfolding forward_def
  by (auto simp: bindE_eq_Inr)

theorem loss_composition_witness:
  "\<exists>a b c. forward (toy_model 3) toy_draw (toy_batch 3) (toy_batch 3) (1 / 2)
             = Inr (Finite (a + 2 * b + 2 * c))"
proof -
  note f = toy_forward_facts
  note p = toy_forward_facts(1) [of "1 / 2"]
  have "\<exists>v. forward (toy_model 3) toy_draw (toy_batch 3) (toy_batch 3) (1 / 2) = Inr (Finite v)"
    by (rule forward_finite [OF p _ f(2) f(3) f(2) f(3)]) (simp_all add: toy_kept)
  then obtain v where v: "forward (toy_model 3) toy_draw (toy_batch 3) (toy_batch 3) (1 / 2)
                       = Inr (Finite v)"
    by blast
  obtain lr lc c where e: "Finite v = sadd (sadd lr (smul 2 lc)) (smul 2 (Finite c))"
    and i: "\<forall>a b. lr = Finite a \<and> lc = Finite b \<longrightarrow> Finite v = Finite (a + 2 * b + 2 * c)"
    using loss_composition [OF v] by blast
  obtain a where a: "lr = Finite a" using e by (cases lr) simp_all
  obtain b where b: "lc = Finite b" using e a by (cases lc) simp_all
  show ?thesis using v i a b by auto
qed

section \<open>C3: the cycle loss\<close>




section \<open>Which fields of the model the forward pass reads\<close>

lemma foldE_cong:
  "(\<And>x s. x \<in> set xs \<Longrightarrow> f x s = g x s) \<Longrightarrow> foldE f xs s = foldE g xs s"
proof (induction xs arbitrary: s)
  case Nil
  then show ?case by simp
next
  case (Cons x xs)
  have "foldE f xs = foldE g xs" using Cons by (intro ext) simp
  then show ?case using Cons.prems by simp
qed

lemma forward_loss_cong:
  assumes "encoder m = encoder m'" "norm_pix_loss m = norm_pix_loss m'"
  shows "forward_loss m = forward_loss m'"
  by (intro ext) (simp add: forward_loss_def loss_target_def assms)

lemma forward_cong:
  assumes e: "encoder m = encoder m'" and n: "norm_pix_loss m = norm_pix_loss m'"
    and d: "\<forall>i<3. multi_domain_decoders m i = multi_domain_decoders m' i"
  shows "forward m draw x ox r = forward m' draw x ox r"
proof -
  note fl = forward_loss_cong [OF e n]
  have lk: "lookup (multi_domain_decoders m) i = lookup (multi_domain_decoders m') i"
    if "i < 3" for i
    using d that by (simp add: lookup_def)
  have ds: "decode_step m l R ox k i = decode_step m' l R ox k i" if "i < 3" for l R k i
    using lk [OF that] by (simp add: decode_step_def fl)
  have cds: "cycle_decode_step m ox bz l k R j = cycle_decode_step m' ox bz l k R j"
    if "j < 3" for bz l k R j
    using lk [OF that] by (simp add: cycle_decode_step_def fl)
  have fd: "foldE (decode_step m l R ox k) [0..<3] s = foldE (decode_step m' l R ox k) [0..<3] s"
    for l R k s
    by (rule foldE_cong) (simp add: ds)
  have fc: "foldE (cycle_decode_step m ox bz l k R) [0..<3] s
              = foldE (cycle_decode_step m' ox bz l k R) [0..<3] s" for bz l k R s
    by (rule foldE_cong) (simp add: cds)
  have cs: "cycle_step m draw ox r bz ps i = cycle_step m' draw ox r bz ps i" for bz ps i
    by (simp add: cycle_step_def fc e)
  have fp: "first_pass m draw x ox r = first_pass m' draw x ox r"
    by (simp add: first_pass_def fd e)
  have cp: "cycle_pass m draw ox r bz ps = cycle_pass m' draw ox r bz ps" for bz ps
    unfolding cycle_pass_def by (rule foldE_cong) (simp add: cs)
  show ?thesis by (simp add: forward_def fp cp)
qed

text \<open>A model that lacks decoder \<open>k\<close> of the three, and is otherwise a model whose
  forward pass returns.\<close>

lemma cycle_pass_cong:
  assumes e: "encoder m = encoder m'" and n: "norm_pix_loss m = norm_pix_loss m'"
    and d: "\<forall>i<3. multi_domain_decoders m i = multi_domain_decoders m' i"
  shows "cycle_pass m draw ox r bz ps = cycle_pass m' draw ox r bz ps"
proof -
  note fl = forward_loss_cong [OF e n]
  have lk: "lookup (multi_domain_decoders m) i = lookup (multi_domain_decoders m') i"
    if "i < 3" for i
    using d that by (simp add: lookup_def)
  have cds: "cycle_decode_step m ox bz l k R j = cycle_decode_step m' ox bz l k R j"
    if "j < 3" for l k R j
    using lk [OF that] by (simp add: cycle_decode_step_def fl)
  have fc: "foldE (cycle_decode_step m ox bz l k R) [0..<3] s
              = foldE (cycle_decode_step m' ox bz l k R) [0..<3] s" for l k R s
    by (rule foldE_cong) (simp add: cds)
  have cs: "cycle_step m draw ox r bz ps i = cycle_step m' draw ox r bz ps i" for i
    by (simp add: cycle_step_def fc e)
  show ?thesis unfolding cycle_pass_def by (rule foldE_cong) (simp add: cs)
qed

lemma forward_missing_decoder:
  fixes draw :: "nat \<Rightarrow> nat list \<Rightarrow> real"
  assumes ok: "model_ok m' N h D (kept (h * h) r) Dd"
    and wx: "wft x" and sx: "shape x = [N, 3, h * patch_size (encoder m'), h * patch_size (encoder m')]"
    and wo: "wft ox" and so: "shape ox = [N, 3, h * patch_size (encoder m'), h * patch_size (encoder m')]"
    and e: "encoder m = encoder m'" and n: "norm_pix_loss m = norm_pix_loss m'"
    and d: "\<forall>i<k. multi_domain_decoders m i = multi_domain_decoders m' i"
    and k: "k < 3" "multi_domain_decoders m k = None"
  shows "forward m draw x ox r = Inl KeyError"
proof -
  define R where "R = restore_of (draw 0) N (h * h)"
  define msk where "msk = mask_of R (kept (h * h) r)"
  obtain latent p0 p1 p2 l0 l1 l2 where
    en: "Encoder_forward (encoder m') (draw 0) x r = Inr (latent, msk, R)"
    and pl: "\<forall>i<3. (\<exists>dec mid. multi_domain_decoders m' i = Some dec
                   \<and> Decoder_forward dec latent R = Inr ([p0, p1, p2] ! i, mid))
            \<and> forward_loss m' ox ([p0, p1, p2] ! i) msk = Inr ([l0, l1, l2] ! i)"
    using first_pass_ok [OF ok wx sx wo so, of draw] unfolding R_def msk_def by blast
  note fl = forward_loss_cong [OF e n]
  have good: "decode_step m latent R ox msk i (a, b)
                = Inr (a @ [[l0, l1, l2] ! i], b @ [[p0, p1, p2] ! i])" if "i < k" for i a b
  proof -
    have i3: "i < 3" using that k(1) by simp
    obtain dec mid where "multi_domain_decoders m' i = Some dec"
      "Decoder_forward dec latent R = Inr ([p0, p1, p2] ! i, mid)"
      "forward_loss m' ox ([p0, p1, p2] ! i) msk = Inr ([l0, l1, l2] ! i)"
      using pl i3 by blast
    then show ?thesis using d that by (simp add: decode_step_def lookup_def fl)
  qed
  have bad: "decode_step m latent R ox msk k (a, b) = Inl KeyError" for a b
    using k(2) by (simp add: decode_step_def lookup_def)
  have "foldE (decode_step m latent R ox msk) [0..<3] ([], []) = Inl KeyError"
    using k(1)
  proof (rule three_cases)
    assume "k = 0"
    then show ?thesis using bad by (simp add: range3)
  next
    assume "k = 1"
    then show ?thesis using bad good [of 0] by (simp add: range3)
  next
    assume "k = 2"
    then show ?thesis using bad good [of 0] good [of 1] by (simp add: range3)
  qed
  then have "first_pass m draw x ox r = Inl KeyError"
    using en by (simp add: first_pass_def e)
  then show ?thesis by (simp add: forward_def)
qed

lemma init_fields [simp]:
  "encoder (CycleMAE_init n enc mk npl) = enc"
  "norm_pix_loss (CycleMAE_init n enc mk npl) = npl"
  "num_domains (CycleMAE_init n enc mk npl) = n"
  by (simp_all add: CycleMAE_init_def)

section \<open>C3: the cycle loss of a model of four domains\<close>

text \<open>
  Claim C3 at a model built with four domains, on a batch of twelve images, three of
  each domain. The claim asks for a cycle pass over four source domains, each decoded
  by the four decoders, and for groups of three rows. \<open>forward\<close> takes groups of
  \<open>12 div 3 = 4\<close> rows, which mix the domains, and its cycle pass collects the mid
  features of three decoders for three source domains: it is the cycle pass of the
  model of three domains, and decoder 3, which the model has, decodes nothing.
\<close>

theorem cycle_four_domains:
  "num_domains (toy_model 4) = 4
   \<and> multi_domain_decoders (toy_model 4) 3 = Some (toy_decoder 3)
   \<and> (\<exists>msk0 losses preds lc mids.
         first_pass (toy_model 4) toy_draw (toy_batch 12) (toy_batch 12) (1 / 2)
           = Inr (msk0, losses, preds)
       \<and> group_size losses = Inr 4
       \<and> cycle_pass (toy_model 4) toy_draw (toy_batch 12) (1 / 2) 4 preds = Inr (lc, mids)
       \<and> map length mids = [3, 3, 3]
       \<and> cycle_pass (toy_model 3) toy_draw (toy_batch 12) (1 / 2) 4 preds = Inr (lc, mids))"
proof -
  have w: "wft (toy_batch 12)" by (rule toy_batch_ok)
  have ok: "model_ok (toy_model 4) (3 * 4) 2 1 (kept (2 * 2) (1 / 2)) 1"
    by (rule toy_model_ok) simp
  have sh: "shape (toy_batch 12) = [3 * 4, 3, 2 * patch_size (encoder (toy_model 4)),
                                    2 * patch_size (encoder (toy_model 4))]"
    using toy_batch_ok(2) [of 12 4] by simp
  obtain msk0 losses preds lc and mid :: "nat \<Rightarrow> nat \<Rightarrow> real tensor" where
    f: "first_pass (toy_model 4) toy_draw (toy_batch 12) (toy_batch 12) (1 / 2)
           = Inr (msk0, losses, preds)"
    and g: "group_size losses = Inr 4"
    and c: "cycle_pass (toy_model 4) toy_draw (toy_batch 12) (1 / 2) 4 preds
         = Inr (lc, [[mid 0 0, mid 1 0, mid 2 0], [mid 0 1, mid 1 1, mid 2 1],
                     [mid 0 2, mid 1 2, mid 2 2]])"
    using forward_ok [OF ok zero_less_one w sh w sh, of toy_draw]
    by (elim exE conjE) (rule that; assumption)
  have e: "cycle_pass (toy_model 3) toy_draw (toy_batch 12) (1 / 2) 4 preds
         = cycle_pass (toy_model 4) toy_draw (toy_batch 12) (1 / 2) 4 preds"
    by (rule cycle_pass_cong) (simp_all add: toy_model_def init_decoders)
  have a: "num_domains (toy_model 4) = 4"
    "multi_domain_decoders (toy_model 4) 3 = Some (toy_decoder 3)"
    by (simp_all add: toy_model_def init_decoders)
  show ?thesis
    apply (intro conjI a)
    apply (rule exI [of _ msk0], rule exI [of _ losses], rule exI [of _ preds],
        rule exI [of _ lc],
        rule exI [of _ "[[mid 0 0, mid 1 0, mid 2 0], [mid 0 1, mid 1 1, mid 2 1],
                     [mid 0 2, mid 1 2, mid 2 2]]"])
    using f g c e by simp
qed

section \<open>C6: the number of domains\<close>

text \<open>
  Claim C6 says that the loops of \<open>forward\<close> and its group size follow the
  \<open>num_domains\<close> the model was constructed with. They do not: \<open>forward\<close> reads the
  decoders 0, 1 and 2 and nothing else of the decoders, and never reads
  \<open>num_domains\<close>. A model constructed with three or more domains computes what the
  model with three domains computes, its further decoders unused; a model
  constructed with fewer than three fails with \<open>KeyError\<close> where the model with
  three domains returns.
\<close>

theorem forward_reads_three_decoders:
  fixes draw :: "nat \<Rightarrow> nat list \<Rightarrow> real"
  shows "(3 \<le> n \<longrightarrow>
            forward (CycleMAE_init n enc mk npl) draw x ox r
              = forward (CycleMAE_init 3 enc mk npl) draw x ox r)
       \<and> (n < 3 \<and> model_ok (CycleMAE_init 3 enc mk npl) N h D (kept (h * h) r) Dd
            \<and> wft x \<and> shape x = [N, 3, h * patch_size enc, h * patch_size enc]
            \<and> wft ox \<and> shape ox = [N, 3, h * patch_size enc, h * patch_size enc]
          \<longrightarrow> forward (CycleMAE_init n enc mk npl) draw x ox r = Inl KeyError)"
proof (intro conjI impI)
  assume "3 \<le> n"
  then show "forward (CycleMAE_init n enc mk npl) draw x ox r
              = forward (CycleMAE_init 3 enc mk npl) draw x ox r"
    by (intro forward_cong) (simp_all add: init_decoders)
next
  assume a: "n < 3 \<and> model_ok (CycleMAE_init 3 enc mk npl) N h D (kept (h * h) r) Dd
            \<and> wft x \<and> shape x = [N, 3, h * patch_size enc, h * patch_size enc]
            \<and> wft ox \<and> shape ox = [N, 3, h * patch_size enc, h * patch_size enc]"
  show "forward (CycleMAE_init n enc mk npl) draw x ox r = Inl KeyError"
  proof (rule forward_missing_decoder [where m' = "CycleMAE_init 3 enc mk npl" and k = n])
    show "model_ok (CycleMAE_init 3 enc mk npl) N h D (kept (h * h) r) Dd" using a by simp
  qed (use a in \<open>simp_all add: init_decoders\<close>)
qed

theorem forward_reads_three_decoders_witness:
  "forward (toy_model 4) toy_draw (toy_batch 3) (toy_batch 3) (1 / 2)
     = forward (toy_model 3) toy_draw (toy_batch 3) (toy_batch 3) (1 / 2)
   \<and> forward (toy_model 2) toy_draw (toy_batch 3) (toy_batch 3) (1 / 2) = Inl KeyError"
proof -
  have ok: "model_ok (CycleMAE_init 3 toy_encoder toy_decoder False) 3 2 1 (kept (2 * 2) (1 / 2)) 1"
    using toy_model_ok [of 3 3 "kept (2 * 2) (1 / 2)"] by (simp add: toy_model_def)
  have ps: "patch_size toy_encoder = 1" by (simp add: toy_encoder_def)
  have sh: "shape (toy_batch 3) = [3, 3, 2 * patch_size toy_encoder, 2 * patch_size toy_encoder]"
    by (simp add: toy_batch_def ps)
  have w: "wft (toy_batch 3)" by (rule toy_batch_ok)
  show ?thesis
    unfolding toy_model_def
    using forward_reads_three_decoders [of 4 toy_encoder toy_decoder False toy_draw
            "toy_batch 3" "toy_batch 3" "1 / 2" 3 2 1 1]
          forward_reads_three_decoders [of 2 toy_encoder toy_decoder False toy_draw
            "toy_batch 3" "toy_batch 3" "1 / 2" 3 2 1 1]
          ok sh w
    by simp
qed

lemma group_row_less:
  fixes g q bz :: nat
  assumes "g < 3" "q < bz"
  shows "g * bz + q < 3 * bz"
proof -
  have "g * bz + q < g * bz + bz" using assms(2) by simp
  also have "\<dots> = Suc g * bz" by simp
  also have "\<dots> \<le> 3 * bz" using assms(1) by (intro mult_le_mono1) simp
  finally show ?thesis .
qed

lemma nth_append3:
  assumes "length a = W" "length b = W" "length c = W" "d < 3" "r < W"
  shows "(a @ b @ c) ! (d * W + r) = [a, b, c] ! d ! r"
  using assms(4)
proof (rule three_cases)
  assume "d = 0"
  then show ?thesis using assms by (simp add: nth_append)
next
  assume "d = 1"
  then show ?thesis using assms by (simp add: nth_append)
next
  assume "d = 2"
  then show ?thesis using assms by (simp add: nth_append)
qed

text \<open>The rows of a feature bank: row \<open>g\<close> holds batch group \<open>g\<close> of the three
  features, one after the other.\<close>

lemma feature_bank_entries:
  assumes fs: "\<forall>f \<in> set [f0, f1, f2]. wft f \<and> shape f = [3 * bz, M, Dd]"
    and fb: "feature_bank [f0, f1, f2] = Inr bank"
    and b: "g < 3" "d < 3" "q < bz" "l < M" "k < Dd"
  shows "tget bank [g, d * bz + q, l, k] = tget ([f0, f1, f2] ! d) [g * bz + q, l, k]"
proof -
  let ?d = "data f0 @ data f1 @ data f2"
  let ?W = "3 * bz * M * Dd"
  have pos: "0 < M" "0 < Dd" using b by simp_all
  obtain B where b1: "feature_bank [f0, f1, f2] = Inr (Tensor [3, 3 * bz, M, Dd] (data B))"
    and B: "B = tabulate [3, 3, bz, M, Dd]
                (\<lambda>idx. tget (Tensor [3, 3, bz, M, Dd] ?d)
                          [idx ! 1, idx ! 0, idx ! 2, idx ! 3, idx ! 4])"
    using feature_bank_ok [OF fs pos] by blast
  have bank: "bank = Tensor [3, 3 * bz, M, Dd] (data B)" using fb b1 by simp
  have v: "list_all2 (<) [g, d, q, l, k] [3, 3, bz, M, Dd]" using b by simp
  have r1: "ravel [3, 3 * bz, M, Dd] [g, d * bz + q, l, k] = ravel [3, 3, bz, M, Dd] [g, d, q, l, k]"
    by (simp add: algebra_simps)
  have "tget bank [g, d * bz + q, l, k] = tget B [g, d, q, l, k]"
    by (simp only: bank tget_def tensor.sel r1) (simp add: B)
  also have "\<dots> = tget (Tensor [3, 3, bz, M, Dd] ?d) [d, g, q, l, k]"
    unfolding B using v by (subst tget_tabulate) simp_all
  also have "\<dots> = ?d ! (d * ?W + ravel [3 * bz, M, Dd] [g * bz + q, l, k])"
    by (simp add: tget_def algebra_simps)
  also have "\<dots> = [data f0, data f1, data f2] ! d ! ravel [3 * bz, M, Dd] [g * bz + q, l, k]"
  proof (rule nth_append3)
    show "length (data f0) = ?W" "length (data f1) = ?W" "length (data f2) = ?W"
      using fs by (simp_all add: wft_def)
    show "d < 3" by (rule b)
    have "list_all2 (<) [g * bz + q, l, k] [3 * bz, M, Dd]"
      using group_row_less [OF b(1) b(3)] b by simp
    then have "ravel [3 * bz, M, Dd] [g * bz + q, l, k] < prod_list [3 * bz, M, Dd]"
      by (rule ravel_less)
    then show "ravel [3 * bz, M, Dd] [g * bz + q, l, k] < ?W" by simp
  qed
  also have "\<dots> = tget ([f0, f1, f2] ! d) [g * bz + q, l, k]"
    using b(2)
  proof (rule three_cases)
    assume "d = 0" then show ?thesis using fs by (simp add: tget_def)
  next
    assume "d = 1" then show ?thesis using fs by (simp add: tget_def)
  next
    assume "d = 2" then show ?thesis using fs by (simp add: tget_def)
  qed
  finally show ?thesis .
qed

section \<open>C8: the contrastive loss\<close>

text \<open>
  Claim C8 with three domains. The cycle pass keeps, for every decoder \<open>j\<close> of the three, the mid
  features \<open>mid d j\<close> of the three re-encoded source domains \<open>d\<close>. The feature bank of
  decoder \<open>j\<close> is their stack with the three domain groups of the batch as leading
  dimension: three rows, row \<open>g\<close> holding the rows \<open>[g * bz, (g + 1) * bz)\<close> of
  \<open>mid 0 j\<close>, \<open>mid 1 j\<close> and \<open>mid 2 j\<close>, one after the other. The contrastive loss is the sum over \<open>j = 0, 1, 2\<close> of the
  negative log-softmax probability of candidate \<open>j\<close> among three logits, logit \<open>g\<close>
  being the dot product of the flattened rows \<open>j\<close> and \<open>g\<close> of the bank of decoder \<open>j\<close>
  divided by \<open>tao = 100000\<close>; \<open>forward\<close> adds twice this sum to its result. The
  number of terms and of candidates is three whatever \<open>num_domains\<close> the model was
  built with.
\<close>

theorem contrastive_loss_formula:
  fixes draw :: "nat \<Rightarrow> nat list \<Rightarrow> real"
  assumes ok: "model_ok m (3 * bz) h D (kept (h * h) r) Dd" and Dd: "0 < Dd"
    and wx: "wft x"
    and sx: "shape x = [3 * bz, 3, h * patch_size (encoder m), h * patch_size (encoder m)]"
    and wo: "wft ox"
    and so: "shape ox = [3 * bz, 3, h * patch_size (encoder m), h * patch_size (encoder m)]"
  defines "R \<equiv> \<lambda>d. restore_of (draw (Suc d)) (3 * bz) (h * h)"
  defines "msk \<equiv> \<lambda>d. mask_of (R d) (kept (h * h) r)"
  shows "\<exists>msk0 losses preds img lat mid bank lr lc.
       first_pass m draw x ox r = Inr (msk0, losses, preds)
     \<and> (\<forall>d<3. unpatchify (patch_size (encoder m)) (preds ! d) = Inr (img d)
          \<and> Encoder_forward (encoder m) (draw (Suc d)) (img d) r = Inr (lat d, msk d, R d)
          \<and> (\<forall>j<3. \<exists>dec pred.
                 multi_domain_decoders m j = Some dec
               \<and> Decoder_forward dec (lat d) (R d) = Inr (pred, mid d j)))
     \<and> cycle_pass m draw ox r bz preds
         = Inr (lc, [[mid 0 0, mid 1 0, mid 2 0], [mid 0 1, mid 1 1, mid 2 1],
                     [mid 0 2, mid 1 2, mid 2 2]])
     \<and> (\<forall>j<3. feature_bank [mid 0 j, mid 1 j, mid 2 j] = Inr (bank j)
             \<and> shape (bank j) = [3, 3 * bz, Suc (h * h), Dd]
             \<and> (\<forall>g<3. \<forall>d<3. \<forall>q<bz. \<forall>l<Suc (h * h). \<forall>k<Dd.
                   tget (bank j) [g, d * bz + q, l, k] = tget (mid d j) [g * bz + q, l, k]))
     \<and> contrastive_loss [[mid 0 0, mid 1 0, mid 2 0], [mid 0 1, mid 1 1, mid 2 1],
                          [mid 0 2, mid 1 2, mid 2 2]]
         = Inr (\<Sum>j<3. neg_log_softmax
                   (\<lambda>g. dot (bank_row (bank j) j) (bank_row (bank j) g) / 100000) 3 j)
     \<and> forward m draw x ox r
         = Inr (sadd (sadd lr (smul 2 lc))
                     (smul 2 (Finite (\<Sum>j<3. neg_log_softmax
                        (\<lambda>g. dot (bank_row (bank j) j) (bank_row (bank j) g) / 100000) 3 j))))"
proof -
  let ?mids = "\<lambda>mid :: nat \<Rightarrow> nat \<Rightarrow> real tensor.
     [[mid 0 0, mid 1 0, mid 2 0], [mid 0 1, mid 1 1, mid 2 1], [mid 0 2, mid 1 2, mid 2 2]]"
  obtain msk0 losses preds img lat loss mid bank lr lc where
    f: "first_pass m draw x ox r = Inr (msk0, losses, preds)"
    and cy: "\<forall>d<3. unpatchify (patch_size (encoder m)) (preds ! d) = Inr (img d)
          \<and> Encoder_forward (encoder m) (draw (Suc d)) (img d) r = Inr (lat d, msk d, R d)
          \<and> (\<forall>j<3. \<exists>dec pred.
                 multi_domain_decoders m j = Some dec
               \<and> Decoder_forward dec (lat d) (R d) = Inr (pred, mid d j)
               \<and> forward_loss m (domain_rows bz j ox) (domain_rows bz j pred)
                    (domain_rows bz j (msk d)) = Inr (loss d j))"
    and cp: "cycle_pass m draw ox r bz preds = Inr (lc, ?mids mid)"
    and bk: "\<forall>j<3. feature_bank [mid 0 j, mid 1 j, mid 2 j] = Inr (bank j)
             \<and> wft (bank j) \<and> shape (bank j) = [3, 3 * bz, Suc (h * h), Dd]"
    and cl: "contrastive_loss (?mids mid)
         = Inr (\<Sum>j<3. neg_log_softmax (similarity (bank j) j) 3 j)"
    and fw: "forward m draw x ox r
         = Inr (sadd (sadd lr (smul 2 lc))
                     (smul 2 (Finite (\<Sum>j<3. neg_log_softmax (similarity (bank j) j) 3 j))))"
    and ms: "\<forall>d<3. \<forall>j<3. wft (mid d j) \<and> shape (mid d j) = [3 * bz, Suc (h * h), Dd]"
    using forward_ok [OF ok Dd wx sx wo so, of draw] unfolding R_def msk_def
    by (elim exE conjE) (rule that [unfolded R_def msk_def]; assumption)
  have sim: "similarity b d = (\<lambda>g. dot (bank_row b d) (bank_row b g) / 100000)" for b d
    by (intro ext) (simp add: similarity_def tao_def)
  have cy': "\<forall>d<3. unpatchify (patch_size (encoder m)) (preds ! d) = Inr (img d)
          \<and> Encoder_forward (encoder m) (draw (Suc d)) (img d) r = Inr (lat d, msk d, R d)
          \<and> (\<forall>j<3. \<exists>dec pred.
                 multi_domain_decoders m j = Some dec
               \<and> Decoder_forward dec (lat d) (R d) = Inr (pred, mid d j))"
    using cy by blast
  have en: "tget (bank j) [g, d * bz + q, l, k] = tget (mid d j) [g * bz + q, l, k]"
    if "j < 3" "g < 3" "d < 3" "q < bz" "l < Suc (h * h)" "k < Dd" for j g d q l k
  proof -
    have "tget (bank j) [g, d * bz + q, l, k]
            = tget ([mid 0 j, mid 1 j, mid 2 j] ! d) [g * bz + q, l, k]"
      by (rule feature_bank_entries [where M = "Suc (h * h)" and Dd = Dd])
        (use ms bk that in simp_all)
    also have "[mid 0 j, mid 1 j, mid 2 j] ! d = mid d j"
      using that(3) by (rule three_cases) simp_all
    finally show ?thesis .
  qed
  have bk': "\<forall>j<3. feature_bank [mid 0 j, mid 1 j, mid 2 j] = Inr (bank j)
             \<and> shape (bank j) = [3, 3 * bz, Suc (h * h), Dd]
             \<and> (\<forall>g<3. \<forall>d<3. \<forall>q<bz. \<forall>l<Suc (h * h). \<forall>k<Dd.
                   tget (bank j) [g, d * bz + q, l, k] = tget (mid d j) [g * bz + q, l, k])"
    using bk en by simp
  show ?thesis
    apply (rule exI [of _ msk0], rule exI [of _ losses], rule exI [of _ preds],
        rule exI [of _ img], rule exI [of _ lat], rule exI [of _ mid], rule exI [of _ bank],
        rule exI [of _ lr], rule exI [of _ lc])
    using f cy' cp bk' cl [unfolded sim] fw [unfolded sim] by (intro conjI) assumption+
qed

theorem contrastive_loss_formula_witness:
  "\<exists>msk0 losses preds (mid :: nat \<Rightarrow> nat \<Rightarrow> real tensor) (bank :: nat \<Rightarrow> real tensor) lc.
       first_pass (toy_model 3) toy_draw (toy_batch 3) (toy_batch 3) (1 / 2)
         = Inr (msk0, losses, preds)
     \<and> cycle_pass (toy_model 3) toy_draw (toy_batch 3) (1 / 2) 1 preds
         = Inr (lc, [[mid 0 0, mid 1 0, mid 2 0], [mid 0 1, mid 1 1, mid 2 1],
                     [mid 0 2, mid 1 2, mid 2 2]])
     \<and> contrastive_loss [[mid 0 0, mid 1 0, mid 2 0], [mid 0 1, mid 1 1, mid 2 1],
                          [mid 0 2, mid 1 2, mid 2 2]]
         = Inr (\<Sum>j<3. neg_log_softmax
                   (\<lambda>g. dot (bank_row (bank j) j) (bank_row (bank j) g) / 100000) 3 j)"
proof -
  note f = toy_forward_facts
  note p = toy_forward_facts(1) [of "1 / 2"]
  obtain msk0 losses preds and mid :: "nat \<Rightarrow> nat \<Rightarrow> real tensor"
    and bank :: "nat \<Rightarrow> real tensor" and lc where
    a: "first_pass (toy_model 3) toy_draw (toy_batch 3) (toy_batch 3) (1 / 2)
         = Inr (msk0, losses, preds)"
    and b: "cycle_pass (toy_model 3) toy_draw (toy_batch 3) (1 / 2) 1 preds
         = Inr (lc, [[mid 0 0, mid 1 0, mid 2 0], [mid 0 1, mid 1 1, mid 2 1],
                     [mid 0 2, mid 1 2, mid 2 2]])"
    and c: "contrastive_loss [[mid 0 0, mid 1 0, mid 2 0], [mid 0 1, mid 1 1, mid 2 1],
                          [mid 0 2, mid 1 2, mid 2 2]]
         = Inr (\<Sum>j<3. neg_log_softmax
                   (\<lambda>g. dot (bank_row (bank j) j) (bank_row (bank j) g) / 100000) 3 j)"
    using contrastive_loss_formula [OF p zero_less_one f(2) f(3) f(2) f(3), of toy_draw]
    by (elim exE conjE) (rule that; assumption)
  show ?thesis using a b c by blast
qed

text \<open>
  Claim C8 at models built with two and with four domains. The claim asks for a sum
  over as many terms, and a softmax over as many candidates, as the model has
  domains. The model of two domains fails at the lookup of the third decoder, before
  any contrastive loss exists. The model of four domains, on a batch of twelve
  images, three of each of its domains, returns what the model of three domains
  returns: its fourth domain is no term and no candidate of the loss.
\<close>

theorem contrastive_other_domain_counts:
  "num_domains (toy_model 2) = 2
   \<and> forward (toy_model 2) toy_draw (toy_batch 12) (toy_batch 12) (1 / 2) = Inl KeyError
   \<and> num_domains (toy_model 4) = 4
   \<and> \<not> isl (forward (toy_model 4) toy_draw (toy_batch 12) (toy_batch 12) (1 / 2))
   \<and> forward (toy_model 4) toy_draw (toy_batch 12) (toy_batch 12) (1 / 2)
       = forward (toy_model 3) toy_draw (toy_batch 12) (toy_batch 12) (1 / 2)"
proof -
  have w: "wft (toy_batch 12)" by (rule toy_batch_ok)
  have k2: "forward (toy_model 2) toy_draw (toy_batch 12) (toy_batch 12) (1 / 2) = Inl KeyError"
  proof (rule forward_missing_decoder [where m' = "toy_model 3" and k = 2 and N = 12
          and h = 2 and D = 1 and Dd = 1])
    show "model_ok (toy_model 3) 12 2 1 (kept (2 * 2) (1 / 2)) 1" by (rule toy_model_ok) simp
    show "shape (toy_batch 12) = [12, 3, 2 * patch_size (encoder (toy_model 3)),
                                   2 * patch_size (encoder (toy_model 3))]"
      by (rule toy_batch_ok)
  qed (simp_all add: w toy_model_def init_decoders toy_batch_def toy_encoder_def)
  have ok: "model_ok (toy_model 4) (3 * 4) 2 1 (kept (2 * 2) (1 / 2)) 1"
    by (rule toy_model_ok) simp
  have sh: "shape (toy_batch 12) = [3 * 4, 3, 2 * patch_size (encoder (toy_model 4)),
                                    2 * patch_size (encoder (toy_model 4))]"
    using toy_batch_ok(2) [of 12 4] by simp
  have "\<exists>v. forward (toy_model 4) toy_draw (toy_batch 12) (toy_batch 12) (1 / 2) = Inr (Finite v)"
    by (rule forward_finite [OF ok _ w sh w sh]) (simp_all add: toy_kept)
  then have r4: "\<not> isl (forward (toy_model 4) toy_draw (toy_batch 12) (toy_batch 12) (1 / 2))"
    by auto
  have e: "forward (toy_model 4) toy_draw (toy_batch 12) (toy_batch 12) (1 / 2)
       = forward (toy_model 3) toy_draw (toy_batch 12) (toy_batch 12) (1 / 2)"
    by (rule forward_cong) (simp_all add: toy_model_def init_decoders)
  show ?thesis using k2 r4 e by (simp add: toy_model_def)
qed

section \<open>A batch of one image\<close>

text \<open>The group size is \<open>int (1 / 3) = 0\<close>: the losses are taken over groups of no
  rows, and the first step that fails is the reshape of the feature bank.\<close>

lemma recons_loss_single:
  assumes ls: "\<forall>u \<in> set [l0, l1, l2]. shape u = [1, L]" and sm: "shape msk = [1, L]"
  shows "recons_loss [l0, l1, l2] 0 msk = Inr (sdiv 0 (tsum msk))"
proof -
  let ?ls = "[l0, l1, l2]"
  define u where "u i = tabulate [0, L] (\<lambda>idx. tget (?ls ! i) (idx[0 := idx ! 0 + i * 0]))" for i
  have sl: "slice 1 0 (int (i * 0)) (Some (int ((i + 1) * 0))) (?ls ! i) = Inr (u i)"
    if "i < 3" for i
  proof -
    have "shape (?ls ! i) = 1 # [L]" using ls that by (auto simp: less_Suc_eq numeral_3_eq_3)
    moreover have "(i + 1) * 0 \<le> (1::nat)" by simp
    ultimately show ?thesis unfolding u_def by (rule slice_rows)
  qed
  have m: "mapE (\<lambda>i. slice 1 0 (int (i * 0)) (Some (int ((i + 1) * 0))) (?ls ! i)) [0..<3]
            = Inr [u 0, u 1, u 2]"
    using sl [of 0] sl [of 1] sl [of 2] by (simp add: range3)
  have "masked_mean [u 0, u 1, u 2] msk = Inr (sdiv 0 (tsum msk))"
    by (rule masked_mean_empty) (simp_all add: u_def sm)
  then show ?thesis using m by (simp add: recons_loss_def)
qed

lemma feature_bank_single:
  assumes fs: "\<forall>f \<in> set [f0, f1, f2]. wft f \<and> shape f = [1, M, Dd]"
  shows "feature_bank [f0, f1, f2] = Inl RuntimeError"
proof -
  let ?d = "data f0 @ data f1 @ data f2"
  have len: "length ?d = 3 * (M * Dd)" using fs by (simp add: wft_def)
  have s1: "stack [f0, f1, f2] = Inr (Tensor [3, 1, M, Dd] ?d)"
    using fs by (simp add: stack_def)
  have k: "nat (9 * (int M * int Dd)) = 9 * (M * Dd)"
    by (simp add: nat_mult_distrib)
  have bad: "9 * (M * Dd) = 0 \<or> length ?d mod (9 * (M * Dd)) \<noteq> 0"
  proof (cases "M * Dd = 0")
    case True
    then show ?thesis by simp
  next
    case False
    then have "3 * (M * Dd) < 9 * (M * Dd)" by simp
    then have "length ?d mod (9 * (M * Dd)) = 3 * (M * Dd)" by (simp only: len mod_less)
    then show ?thesis using False by simp
  qed
  have "reshape (Tensor [3, 1, M, Dd] ?d) [3, 3, - 1, int M, int Dd] = Inl RuntimeError"
    using bad by (auto simp: reshape_def Let_def k)
  then show ?thesis using s1 by (simp add: feature_bank_def)
qed

lemma contrastive_loss_single:
  assumes "\<forall>f \<in> set [f0, f1, f2]. wft f \<and> shape f = [1, M, Dd]"
  shows "contrastive_loss [[f0, f1, f2], b, c] = Inl RuntimeError"
proof -
  have fb: "feature_bank ([[f0, f1, f2], b, c] ! 0) = Inl RuntimeError"
    using feature_bank_single [OF assms] by simp
  have "contrastive_step [[f0, f1, f2], b, c] 0 acc = Inl RuntimeError" for acc
    unfolding contrastive_step_def by (simp only: fb bindE_Inl)
  then show ?thesis by (simp add: contrastive_loss_def range3)
qed

lemma forward_single:
  fixes draw :: "nat \<Rightarrow> nat list \<Rightarrow> real"
  assumes ok: "model_ok m 1 h D (kept (h * h) r) Dd"
    and wx: "wft x"
    and sx: "shape x = [1, 3, h * patch_size (encoder m), h * patch_size (encoder m)]"
    and wo: "wft ox"
    and so: "shape ox = [1, 3, h * patch_size (encoder m), h * patch_size (encoder m)]"
  defines "msk0 \<equiv> mask_of (restore_of (draw 0) 1 (h * h)) (kept (h * h) r)"
  shows "\<exists>losses preds lc mids.
       first_pass m draw x ox r = Inr (msk0, losses, preds)
     \<and> group_size losses = Inr 0
     \<and> recons_loss losses 0 msk0 = Inr (sdiv 0 (tsum msk0))
     \<and> cycle_pass m draw ox r 0 preds = Inr (lc, mids)
     \<and> contrastive_loss mids = Inl RuntimeError
     \<and> forward m draw x ox r = Inl RuntimeError"
proof -
  let ?L = "h * h" and ?P = "(patch_size (encoder m))\<^sup>2 * 3"
  obtain latent target p0 p1 p2 l0 l1 l2 where
    f: "first_pass m draw x ox r = Inr (msk0, [l0, l1, l2], [p0, p1, p2])"
    and pl0: "\<forall>i<3. wft ([p0, p1, p2] ! i)
            \<and> shape ([p0, p1, p2] ! i) = [1, ?L, ?P]
            \<and> wft ([l0, l1, l2] ! i) \<and> shape ([l0, l1, l2] ! i) = [1, ?L]
            \<and> (\<exists>dec mid. multi_domain_decoders m i = Some dec
                   \<and> Decoder_forward dec latent (restore_of (draw 0) 1 ?L)
                       = Inr ([p0, p1, p2] ! i, mid))
            \<and> forward_loss m ox ([p0, p1, p2] ! i) msk0 = Inr ([l0, l1, l2] ! i)
            \<and> (\<forall>n<1. \<forall>l < ?L.
                  tget ([l0, l1, l2] ! i) [n, l] = patch_mse ([p0, p1, p2] ! i) target n l)"
    using first_pass_ok [OF ok wx sx wo so, of draw] unfolding msk0_def
    by (elim exE conjE) (rule that [unfolded msk0_def]; assumption)
  have pl: "wft ([p0, p1, p2] ! i)
            \<and> shape ([p0, p1, p2] ! i) = [1, ?L, ?P]
            \<and> wft ([l0, l1, l2] ! i) \<and> shape ([l0, l1, l2] ! i) = [1, ?L]" if "i < 3" for i
    using pl0 [rule_format, OF that] by simp
  let ?ps = "[p0, p1, p2]" and ?ls = "[l0, l1, l2]"
  have sl: "\<forall>u \<in> set ?ls. shape u = [1, ?L]"
    using pl [of 0] pl [of 1] pl [of 2] by simp
  have g: "group_size ?ls = Inr 0"
    using group_size_ok [of l0 1 "[?L]" "[l1, l2]"] sl by simp
  have sm: "shape msk0 = [1, ?L]" by (simp add: msk0_def)
  have rl: "recons_loss ?ls 0 msk0 = Inr (sdiv 0 (tsum msk0))"
    using sl sm by (rule recons_loss_single)
  have ps: "\<forall>d<3. wft (?ps ! d) \<and> shape (?ps ! d) = [1, ?L, ?P]"
    using pl by simp
  have le3: "3 * 0 \<le> (1::nat)" by simp
  have c: "(1::nat) = 3 * 0 \<or> ((0::nat) = 0 \<and> (1::nat) = 1)" by simp
  obtain img latent loss and mid :: "nat \<Rightarrow> nat \<Rightarrow> real tensor" where
    A: "\<forall>d<3. unpatchify (patch_size (encoder m)) (?ps ! d) = Inr (img d)
          \<and> Encoder_forward (encoder m) (draw (Suc d)) (img d) r
              = Inr (latent d, mask_of (restore_of (draw (Suc d)) 1 ?L) (kept ?L r),
                     restore_of (draw (Suc d)) 1 ?L)
          \<and> (\<forall>j<3. \<exists>dec pred.
                 multi_domain_decoders m j = Some dec
               \<and> Decoder_forward dec (latent d) (restore_of (draw (Suc d)) 1 ?L)
                   = Inr (pred, mid d j)
               \<and> forward_loss m (domain_rows 0 j ox) (domain_rows 0 j pred)
                    (domain_rows 0 j (mask_of (restore_of (draw (Suc d)) 1 ?L) (kept ?L r)))
                    = Inr (loss d j)
               \<and> wft (mid d j) \<and> shape (mid d j) = [1, Suc ?L, Dd])"
    and cp0: "cycle_pass m draw ox r 0 ?ps
         = Inr (sadd (sadd (sadd (Finite 0)
                  (masked_score (loss 0) (mask_of (restore_of (draw (Suc 0)) 1 ?L) (kept ?L r)) 0 ?L))
                  (masked_score (loss 1) (mask_of (restore_of (draw (Suc 1)) 1 ?L) (kept ?L r)) 0 ?L))
                  (masked_score (loss 2) (mask_of (restore_of (draw (Suc 2)) 1 ?L) (kept ?L r)) 0 ?L),
                [[mid 0 0, mid 1 0, mid 2 0], [mid 0 1, mid 1 1, mid 2 1],
                 [mid 0 2, mid 1 2, mid 2 2]])"
    using cycle_pass_ok [OF ok ps wo so le3 c, where draw = draw]
    by (elim exE conjE) (rule that; assumption)
  have ms: "wft (mid d j) \<and> shape (mid d j) = [1, Suc ?L, Dd]" if "d < 3" "j < 3" for d j
  proof -
    have "\<exists>dec pred.
                 multi_domain_decoders m j = Some dec
               \<and> Decoder_forward dec (latent d) (restore_of (draw (Suc d)) 1 ?L)
                   = Inr (pred, mid d j)
               \<and> forward_loss m (domain_rows 0 j ox) (domain_rows 0 j pred)
                    (domain_rows 0 j (mask_of (restore_of (draw (Suc d)) 1 ?L) (kept ?L r)))
                    = Inr (loss d j)
               \<and> wft (mid d j) \<and> shape (mid d j) = [1, Suc ?L, Dd]"
      using A that by simp
    then show ?thesis by (elim exE conjE) simp
  qed
  obtain lc where cp: "cycle_pass m draw ox r 0 ?ps
         = Inr (lc, [[mid 0 0, mid 1 0, mid 2 0], [mid 0 1, mid 1 1, mid 2 1],
                     [mid 0 2, mid 1 2, mid 2 2]])"
    using cp0 by simp
  have cl: "contrastive_loss [[mid 0 0, mid 1 0, mid 2 0], [mid 0 1, mid 1 1, mid 2 1],
                              [mid 0 2, mid 1 2, mid 2 2]] = Inl RuntimeError"
    by (rule contrastive_loss_single) (simp add: ms)
  have fw: "forward m draw x ox r = Inl RuntimeError"
    using f g rl cp cl by (simp add: forward_def)
  show ?thesis
    apply (rule exI [of _ ?ls], rule exI [of _ ?ps], rule exI [of _ lc],
        rule exI [of _ "[[mid 0 0, mid 1 0, mid 2 0], [mid 0 1, mid 1 1, mid 2 1],
                     [mid 0 2, mid 1 2, mid 2 2]]"])
    using f g rl cp cl fw by (intro conjI) assumption+
qed

section \<open>Images the loss rejects\<close>

lemma patchify_rejects:
  assumes "4 \<le> length (shape imgs)"
    and "shape imgs ! 2 \<noteq> shape imgs ! 3 \<or> shape imgs ! 2 mod p \<noteq> 0"
  shows "patchify p imgs = (if shape imgs ! 2 = shape imgs ! 3 \<and> p = 0
                             then Inl ZeroDivisionError else Inl AssertionError)"
  using assms by (auto simp: patchify_def)

lemma forward_bad_image:
  assumes p: "patchify (patch_size (encoder m)) ox = Inl e0"
  shows "\<exists>e. forward m draw x ox r = Inl e"
proof -
  have fl: "forward_loss m ox pred k = Inl e0" for pred k
    by (simp add: forward_loss_def loss_target_def p)
  have ds: "\<exists>e. decode_step m l R ox k 0 s = Inl e" for l R k s
    by (cases s; cases "lookup (multi_domain_decoders m) 0")
      (auto simp: decode_step_def fl bindE_def split: sum.splits prod.splits)
  have fo: "\<exists>e. foldE (decode_step m l R ox k) [0..<3] s = Inl e" for l R k s
    using ds [of l R k s] by (auto simp: range3)
  have "\<exists>e. first_pass m draw x ox r = Inl e"
  proof (cases "Encoder_forward (encoder m) (draw 0) x r")
    case (Inl e)
    then show ?thesis by (simp add: first_pass_def)
  next
    case (Inr v)
    obtain l k R where v: "v = (l, k, R)" by (cases v)
    obtain e where "foldE (decode_step m l R ox k) [0..<3] ([], []) = Inl e"
      using fo by blast
    then show ?thesis using Inr v by (simp add: first_pass_def)
  qed
  then show ?thesis by (auto simp: forward_def)
qed

section \<open>C7: shape errors\<close>

text \<open>
  Claim C7. \<open>forward\<close> raises when the original images are not square or their size
  is no multiple of the patch size: \<^verbatim>\<open>patchify\<close> rejects them (an assertion, or a
  division by a patch size of zero) in the first decoding step, unless an earlier
  step has failed already. For the size of the batch there is no check. In a model
  of three domains whose encoder and decoders keep their contracts, a batch whose
  size \<open>N\<close> is no multiple of the number of domains makes \<open>forward\<close> fail with a shape
  error, of the reconstruction loss or, for \<open>N = 1\<close>, of the contrastive loss: with
  one image the group size is 0, the reconstruction loss and the cycle loss are
  computed over groups of no rows, and only the reshape of the feature bank fails.
\<close>

theorem forward_shape_errors:
  fixes draw :: "nat \<Rightarrow> nat list \<Rightarrow> real"
  shows "(4 \<le> length (shape ox)
            \<and> (shape ox ! 2 \<noteq> shape ox ! 3 \<or> shape ox ! 2 mod patch_size (encoder m) \<noteq> 0)
          \<longrightarrow> (\<exists>e. forward m draw x ox r = Inl e)
              \<and> patchify (patch_size (encoder m)) ox
                  = (if shape ox ! 2 = shape ox ! 3 \<and> patch_size (encoder m) = 0
                     then Inl ZeroDivisionError else Inl AssertionError))
       \<and> (num_domains m = 3 \<and> model_ok m N h D (kept (h * h) r) Dd
            \<and> wft x \<and> shape x = [N, 3, h * patch_size (encoder m), h * patch_size (encoder m)]
            \<and> wft ox \<and> shape ox = [N, 3, h * patch_size (encoder m), h * patch_size (encoder m)]
            \<and> N mod num_domains m \<noteq> 0
          \<longrightarrow> forward m draw x ox r = Inl RuntimeError
              \<and> (N = 1 \<longrightarrow>
                   (\<exists>msk0 losses preds lc mids.
                       first_pass m draw x ox r = Inr (msk0, losses, preds)
                     \<and> group_size losses = Inr 0
                     \<and> recons_loss losses 0 msk0 = Inr (sdiv 0 (tsum msk0))
                     \<and> cycle_pass m draw ox r 0 preds = Inr (lc, mids)
                     \<and> contrastive_loss mids = Inl RuntimeError)))"
proof (intro conjI impI)
  assume a: "4 \<le> length (shape ox)
            \<and> (shape ox ! 2 \<noteq> shape ox ! 3 \<or> shape ox ! 2 mod patch_size (encoder m) \<noteq> 0)"
  then show p: "patchify (patch_size (encoder m)) ox
                  = (if shape ox ! 2 = shape ox ! 3 \<and> patch_size (encoder m) = 0
                     then Inl ZeroDivisionError else Inl AssertionError)"
    by (intro patchify_rejects) simp_all
  show "\<exists>e. forward m draw x ox r = Inl e"
    by (rule forward_bad_image [where ?e0.0 = "if shape ox ! 2 = shape ox ! 3 \<and> patch_size (encoder m) = 0
                     then ZeroDivisionError else AssertionError"]) (simp add: p)
next
  assume a: "num_domains m = 3 \<and> model_ok m N h D (kept (h * h) r) Dd
            \<and> wft x \<and> shape x = [N, 3, h * patch_size (encoder m), h * patch_size (encoder m)]
            \<and> wft ox \<and> shape ox = [N, 3, h * patch_size (encoder m), h * patch_size (encoder m)]
            \<and> N mod num_domains m \<noteq> 0"
  have one: "\<exists>losses preds lc mids.
                       first_pass m draw x ox r
                         = Inr (mask_of (restore_of (draw 0) 1 (h * h)) (kept (h * h) r),
                                losses, preds)
                     \<and> group_size losses = Inr 0
                     \<and> recons_loss losses 0
                          (mask_of (restore_of (draw 0) 1 (h * h)) (kept (h * h) r))
                         = Inr (sdiv 0
                             (tsum (mask_of (restore_of (draw 0) 1 (h * h)) (kept (h * h) r))))
                     \<and> cycle_pass m draw ox r 0 preds = Inr (lc, mids)
                     \<and> contrastive_loss mids = Inl RuntimeError
                     \<and> forward m draw x ox r = Inl RuntimeError" if "N = 1"
    by (rule forward_single [where h = h and D = D and Dd = Dd]) (use a that in simp_all)
  show "forward m draw x ox r = Inl RuntimeError"
  proof (cases "N = 1")
    case True
    then show ?thesis using one by blast
  next
    case False
    show ?thesis
      by (rule forward_mismatch [where N = N and h = h and D = D and Dd = Dd])
        (use a False in auto)
  qed
  show "\<exists>msk0 losses preds lc mids.
                       first_pass m draw x ox r = Inr (msk0, losses, preds)
                     \<and> group_size losses = Inr 0
                     \<and> recons_loss losses 0 msk0 = Inr (sdiv 0 (tsum msk0))
                     \<and> cycle_pass m draw ox r 0 preds = Inr (lc, mids)
                     \<and> contrastive_loss mids = Inl RuntimeError" if "N = 1"
    using one [OF that] by (elim exE conjE) (intro exI conjI, assumption+)
qed

theorem forward_shape_errors_witness:
  "(\<exists>e. forward (toy_model 3) toy_draw (toy_batch 3) (Tensor [3, 3, 2, 3] (replicate 54 0)) (1 / 2)
          = Inl e)
   \<and> patchify (patch_size (encoder (toy_model 3))) (Tensor [3, 3, 2, 3] (replicate 54 0))
       = Inl AssertionError
   \<and> forward (toy_model 3) toy_draw (toy_batch 4) (toy_batch 4) (1 / 2) = Inl RuntimeError
   \<and> forward (toy_model 3) toy_draw (toy_batch 1) (toy_batch 1) (1 / 2) = Inl RuntimeError
   \<and> (\<exists>msk0 losses preds lc mids.
         first_pass (toy_model 3) toy_draw (toy_batch 1) (toy_batch 1) (1 / 2)
           = Inr (msk0, losses, preds)
       \<and> recons_loss losses 0 msk0 = Inr (sdiv 0 (tsum msk0))
       \<and> cycle_pass (toy_model 3) toy_draw (toy_batch 1) (1 / 2) 0 preds = Inr (lc, mids)
       \<and> contrastive_loss mids = Inl RuntimeError)"
proof -
  have ok: "model_ok (toy_model 3) N 2 1 (kept (2 * 2) (1 / 2)) 1" for N
    by (rule toy_model_ok) simp
  have ps: "patch_size (encoder (toy_model 3)) = 1"
    by (simp add: toy_model_def toy_encoder_def)
  have nd: "num_domains (toy_model 3) = 3" by (simp add: toy_model_def)
  have a: "(\<exists>e. forward (toy_model 3) toy_draw (toy_batch 3) (Tensor [3, 3, 2, 3] (replicate 54 0))
                  (1 / 2) = Inl e)
           \<and> patchify (patch_size (encoder (toy_model 3))) (Tensor [3, 3, 2, 3] (replicate 54 0))
               = Inl AssertionError"
    using forward_shape_errors [of "Tensor [3, 3, 2, 3] (replicate 54 0)" "toy_model 3"
            toy_draw "toy_batch 3" "1 / 2" 4 2 1 1]
    by (simp add: ps)
  have b: "forward (toy_model 3) toy_draw (toy_batch 4) (toy_batch 4) (1 / 2) = Inl RuntimeError"
    using forward_shape_errors [of "toy_batch 4" "toy_model 3" toy_draw "toy_batch 4" "1 / 2"
            4 2 1 1]
          ok [of 4] toy_batch_ok(1) [of 4] toy_batch_ok(2) [of 4 3]
    by (simp add: ps nd)
  have c: "forward (toy_model 3) toy_draw (toy_batch 1) (toy_batch 1) (1 / 2) = Inl RuntimeError
     \<and> (\<exists>msk0 losses preds lc mids.
         first_pass (toy_model 3) toy_draw (toy_batch 1) (toy_batch 1) (1 / 2)
           = Inr (msk0, losses, preds)
       \<and> group_size losses = Inr 0
       \<and> recons_loss losses 0 msk0 = Inr (sdiv 0 (tsum msk0))
       \<and> cycle_pass (toy_model 3) toy_draw (toy_batch 1) (1 / 2) 0 preds = Inr (lc, mids)
       \<and> contrastive_loss mids = Inl RuntimeError)"
    using forward_shape_errors [of "toy_batch 1" "toy_model 3" toy_draw "toy_batch 1" "1 / 2"
            1 2 1 1]
          ok [of 1] toy_batch_ok(1) [of 1] toy_batch_ok(2) [of 1 3]
    by (simp add: ps nd)
  show ?thesis
    using a b c by (elim exE conjE) (intro exI conjI, assumption+)
qed

text \<open>A model of three domains on a batch of one image: no error where the group
  size is computed; the group size is 0 and the reconstruction loss is taken over
  no rows, 0 over the two removed patches. And a model built with four domains on a
  batch of three images: \<open>forward\<close> returns.\<close>

theorem batch_not_divided_by_domains:
  "num_domains (toy_model 3) = 3 \<and> (1::nat) mod 3 \<noteq> 0
   \<and> reconstruction_stage (toy_model 3) toy_draw (toy_batch 1) (toy_batch 1) (1 / 2)
       = Inr (0, Finite 0)
   \<and> num_domains (toy_model 4) = 4 \<and> (3::nat) mod 4 \<noteq> 0
   \<and> \<not> isl (forward (toy_model 4) toy_draw (toy_batch 3) (toy_batch 3) (1 / 2))"
proof -
  have ok1: "model_ok (toy_model 3) 1 2 1 (kept (2 * 2) (1 / 2)) 1"
    by (rule toy_model_ok) simp
  have sh1: "shape (toy_batch 1) = [1, 3, 2 * patch_size (encoder (toy_model 3)),
                                    2 * patch_size (encoder (toy_model 3))]"
    by (rule toy_batch_ok)
  have w1: "wft (toy_batch 1)" by (rule toy_batch_ok)
  let ?msk = "mask_of (restore_of (toy_draw 0) 1 (2 * 2)) (kept (2 * 2) (1 / 2))"
  obtain losses preds where
    f: "first_pass (toy_model 3) toy_draw (toy_batch 1) (toy_batch 1) (1 / 2)
          = Inr (?msk, losses, preds)"
    and g: "group_size losses = Inr 0"
    and rl: "recons_loss losses 0 ?msk = Inr (sdiv 0 (tsum ?msk))"
    using forward_single [OF ok1 w1 sh1 w1 sh1, of toy_draw]
    by (elim exE conjE) (rule that; assumption)
  have "tsum ?msk = real 1 * (real (2 * 2) - real (kept (2 * 2) (1 / 2)))"
    by (rule tsum_mask_of) simp
  then have "tsum ?msk = 2" by (simp add: toy_kept)
  then have one: "reconstruction_stage (toy_model 3) toy_draw (toy_batch 1) (toy_batch 1) (1 / 2)
       = Inr (0, Finite 0)"
    using f g rl by (simp add: reconstruction_stage_def sdiv_def)
  have ok: "model_ok (toy_model 4) (3 * 1) 2 1 (kept (2 * 2) (1 / 2)) 1"
    by (rule toy_model_ok) simp
  have sh: "shape (toy_batch 3) = [3 * 1, 3, 2 * patch_size (encoder (toy_model 4)),
                                   2 * patch_size (encoder (toy_model 4))]"
    using toy_batch_ok(2) [of 3 4] by simp
  have w: "wft (toy_batch 3)" by (rule toy_batch_ok)
  have "\<exists>v. forward (toy_model 4) toy_draw (toy_batch 3) (toy_batch 3) (1 / 2) = Inr (Finite v)"
    by (rule forward_finite [OF ok _ w sh w sh]) (simp_all add: toy_kept)
  then have four: "\<not> isl (forward (toy_model 4) toy_draw (toy_batch 3) (toy_batch 3) (1 / 2))"
    by auto
  show ?thesis using one four by (simp add: toy_model_def)
qed

section \<open>Runs of the restoration step and of patchify\<close>

lemma argsort_bij:
  fixes t :: "('a::linorder) tensor"
  assumes st: "shape t = [N, L]" and n: "n < N"
  shows "bij_betw (\<lambda>k. tget (argsort t (Suc 0)) [n, k]) {..<L} {..<L}"
proof (rule bij_betw_byWitness [where f' = "\<lambda>i. tget (argsort (argsort t (Suc 0)) (Suc 0)) [n, i]"])
  show "\<forall>k \<in> {..<L}. tget (argsort (argsort t (Suc 0)) (Suc 0)) [n, tget (argsort t (Suc 0)) [n, k]] = k"
    using argsort_argsort(2) [OF st n] by simp
  show "\<forall>i \<in> {..<L}. tget (argsort t (Suc 0)) [n, tget (argsort (argsort t (Suc 0)) (Suc 0)) [n, i]] = i"
    using argsort_argsort(1) [OF st n] by simp
  show "(\<lambda>k. tget (argsort t (Suc 0)) [n, k]) ` {..<L} \<subseteq> {..<L}"
    using argsort_tget_less [OF st n] by auto
  show "(\<lambda>i. tget (argsort (argsort t (Suc 0)) (Suc 0)) [n, i]) ` {..<L} \<subseteq> {..<L}"
    using argsort_tget_less [of "argsort t (Suc 0)" N L n] st n by auto
qed

theorem restore_places_tokens_witness:
  "\<exists>x'. restore_tokens (toy_decoder 7)
            (tabulate [2, 3, 1] (\<lambda>idx. real (10 * (idx ! 0) + idx ! 1)))
            (argsort (argsort (tabulate [2, 4] draw0) 1) 1) = Inr x'
     \<and> shape x' = [2, 4, 1]
     \<and> tget x' [0, tget (argsort (tabulate [2, 4] draw0) 1) [0, 0], 0] = 1
     \<and> tget x' [0, tget (argsort (tabulate [2, 4] draw0) 1) [0, 3], 0] = 7"
proof -
  let ?x = "tabulate [2, 3, 1] (\<lambda>idx. real (10 * (idx ! 0) + idx ! 1))"
  let ?S = "argsort (tabulate [2, 4] draw0) 1"
  have perm: "\<forall>n<2. bij_betw (\<lambda>k. tget ?S [n, k]) {..<4} {..<4}"
  proof (intro allI impI)
    fix n :: nat assume "n < 2"
    then show "bij_betw (\<lambda>k. tget ?S [n, k]) {..<4} {..<4}"
      unfolding One_nat_def by (intro argsort_bij [where N = 2]) simp_all
  qed
  have sx: "shape ?x = [2, Suc 2, 1]" by simp
  have sm: "shape (mask_token (toy_decoder 7)) = [1, 1, 1]" by (simp add: toy_decoder_def)
  have ss: "shape ?S = [2, 4]" by simp
  have mt: "tget (mask_token (toy_decoder 7)) [0, 0, 0] = 7"
    by (simp add: toy_decoder_def tget_def)
  note th = restore_places_tokens [OF sx _ sm ss perm]
  obtain x' where r: "restore_tokens (toy_decoder 7) ?x (argsort ?S 1) = Inr x'"
    and s: "shape x' = [2, 4, 1]"
    and a: "\<forall>n<2. \<forall>d<1.
                 (\<forall>k<2. tget x' [n, tget ?S [n, k], d] = tget ?x [n, Suc k, d])
               \<and> (\<forall>k<4. 2 \<le> k \<longrightarrow>
                     tget x' [n, tget ?S [n, k], d] = tget (mask_token (toy_decoder 7)) [0, 0, d])"
    using th by (auto split: sum.splits)
  have "tget x' [0, tget ?S [0, 0], 0] = tget ?x [0, Suc 0, 0]"
    using a by simp
  moreover have "tget x' [0, tget ?S [0, 3], 0] = 7"
    using a mt by simp
  ultimately show ?thesis using r s by simp
qed

theorem patchify_roundtrip_witness:
  "\<exists>y. patchify 2 (toy_batch 1) = Inr y \<and> shape y = [1, 1, 12]
      \<and> unpatchify 2 y = Inr (toy_batch 1)
      \<and> tget y [0, 0, 11] = tget (toy_batch 1) [0, 2, 1, 1]"
proof -
  have w: "wft (toy_batch 1)" by (rule toy_batch_ok)
  have s: "shape (toy_batch 1) = [1, 3, 2, 2]" by (simp add: toy_batch_def)
  note th = patchify_roundtrip [OF w s, of 2]
  obtain y where p: "patchify 2 (toy_batch 1) = Inr y"
    and sy: "shape y = [1, (2 div 2) * (2 div 2), 2\<^sup>2 * 3]"
    and u: "unpatchify 2 y = Inr (toy_batch 1)"
    and l: "\<forall>n<1. \<forall>c<3. \<forall>i1 < 2 div 2. \<forall>j1 < 2 div 2. \<forall>i2<2. \<forall>j2<2.
                 tget y [n, i1 * (2 div 2) + j1, (i2 * 2 + j2) * 3 + c]
                   = tget (toy_batch 1) [n, c, i1 * 2 + i2, j1 * 2 + j2]"
    using th by (auto split: sum.splits)
  have "tget y [0, 0 * (2 div 2) + 0, (1 * 2 + 1) * 3 + 2]
          = tget (toy_batch 1) [0, 2, 0 * 2 + 1, 0 * 2 + 1]"
    using l by (intro l [rule_format]) simp_all
  then have "tget y [0, 0, 11] = tget (toy_batch 1) [0, 2, 1, 1]" by simp
  then show ?thesis using p sy u by simp
qed

text \<open>An image of one channel, one pixel, with the patch size 1: square, its size a
  multiple of the patch size, and rejected, since \<^verbatim>\<open>patchify\<close> regroups the image as
  three channels.\<close>

theorem patchify_one_channel:
  "patchify 1 (Tensor [1, 1, 1, 1] [0]) = Inl RuntimeError"
  by (simp add: patchify_def reshape_def Let_def)

end
